theory Spec2Isabelle
  imports Main
begin

section \<open>Documents of the store\<close>

text \<open>
  The backend keeps its entities as documents of a MongoDB database. Only the two
  collections that \<^verbatim>\<open>complete_day\<close> (src/main.py, lines 196-259) touches are modelled:
  \<^verbatim>\<open>user\<close> and \<^verbatim>\<open>progress\<close>.

  \<^item> An object id is opaque; it is a natural number here.
  \<^item> A calendar date (\<^verbatim>\<open>datetime.date\<close>) is its day number (\<^verbatim>\<open>date.toordinal()\<close>), an
    integer, so that \<^verbatim>\<open>(today - last_date).days\<close> is integer subtraction. The progress
    update stores \<^verbatim>\<open>today.isoformat()\<close> and the next call reads the string back with
    \<^verbatim>\<open>date.fromisoformat\<close>; on dates the two are inverse, and the model keeps the date.
  \<^item> An instant (\<^verbatim>\<open>datetime.now(timezone.utc)\<close>) is an integer.
  \<^item> Python's unbounded integers are \<^typ>\<open>int\<close>. The store is taken to hold every integer:
    the 64-bit range of the integers that MongoDB encodes is not modelled.
  \<^item> A document is a dictionary with string keys. A key the code reads with
    \<^verbatim>\<open>doc.get(key, default)\<close> is an optional field: \<^term>\<open>None\<close> when the key is absent.
\<close>

type_synonym oid = nat
type_synonym date = int
type_synonym datetime = int

record user_doc =
  u_id :: oid
  u_name :: string
  u_email :: string
  u_points :: "int option"
  u_streak :: "int option"
  u_longest_streak :: "int option"
  u_badges :: "string list"
  u_is_active :: bool
  u_updated_at :: "datetime option"

record progress_doc =
  p_id :: oid
  p_user_email :: string
  p_challenge_slug :: string
  p_current_day :: "int option"
  p_completed_days :: "int list option"
  p_last_completed_date :: "date option"
  p_updated_at :: "datetime option"

text \<open>The pydantic model \<^verbatim>\<open>Progress\<close> of src/schemas.py, lines 41-47.\<close>

record progress_model =
  m_user_email :: string
  m_challenge_slug :: string
  m_current_day :: int
  m_completed_days :: "int list"
  m_last_completed_date :: "date option"

definition Progress :: "string \<Rightarrow> string \<Rightarrow> progress_model" where
  "Progress email slug =
     \<lparr>m_user_email = email, m_challenge_slug = slug, m_current_day = 1,
      m_completed_days = [], m_last_completed_date = None\<rparr>"

text \<open>\<^verbatim>\<open>doc.get(key, default)\<close> on an optional field.\<close>

definition dict_get :: "'a option \<Rightarrow> 'a \<Rightarrow> 'a" where
  "dict_get v dflt = (case v of None \<Rightarrow> dflt | Some x \<Rightarrow> x)"

section \<open>The store\<close>

text \<open>
  A collection is the list of its documents in insertion order, which is the order in
  which \<^verbatim>\<open>find_one\<close> meets them. Every write is also appended to a log of the store, so
  that the writes of one request can be counted.
\<close>

datatype write_op = InsertOne string oid | UpdateOne string oid

record store =
  user_col :: "user_doc list"
  progress_col :: "progress_doc list"
  oplog :: "write_op list"

text \<open>\<^verbatim>\<open>collection.find_one(filter)\<close>: the first document that matches, or \<^verbatim>\<open>None\<close>.\<close>

fun find_one :: "('a \<Rightarrow> bool) \<Rightarrow> 'a list \<Rightarrow> 'a option" where
  "find_one flt [] = None"
| "find_one flt (d # ds) = (if flt d then Some d else find_one flt ds)"

text \<open>The documents after \<^verbatim>\<open>update_one(filter, {"$set": ...})\<close>: the first match is changed.\<close>

fun update_first :: "('a \<Rightarrow> bool) \<Rightarrow> ('a \<Rightarrow> 'a) \<Rightarrow> 'a list \<Rightarrow> 'a list" where
  "update_first flt f [] = []"
| "update_first flt f (d # ds) = (if flt d then f d # ds else d # update_first flt f ds)"

definition update_one_progress :: "oid \<Rightarrow> (progress_doc \<Rightarrow> progress_doc) \<Rightarrow> store \<Rightarrow> store" where
  "update_one_progress i f s =
     (case find_one (\<lambda>p. p_id p = i) (progress_col s) of
        None \<Rightarrow> s
      | Some _ \<Rightarrow>
          s\<lparr>progress_col := update_first (\<lambda>p. p_id p = i) f (progress_col s),
            oplog := oplog s @ [UpdateOne ''progress'' i]\<rparr>)"

definition update_one_user :: "oid \<Rightarrow> (user_doc \<Rightarrow> user_doc) \<Rightarrow> store \<Rightarrow> store" where
  "update_one_user i f s =
     (case find_one (\<lambda>u. u_id u = i) (user_col s) of
        None \<Rightarrow> s
      | Some _ \<Rightarrow>
          s\<lparr>user_col := update_first (\<lambda>u. u_id u = i) f (user_col s),
            oplog := oplog s @ [UpdateOne ''user'' i]\<rparr>)"

definition fresh_oid :: "oid list \<Rightarrow> oid" where
  "fresh_oid ids = Suc (fold max ids 0)"

text \<open>
  Modelled from the spec: \<^verbatim>\<open>create_document\<close> of the module \<^verbatim>\<open>database\<close>, which is imported
  by src/main.py (line 9) and is not among the sources. The spec (section 6) describes the
  store as collections mapping an opaque identifier to a document, with find-by-filter,
  insert and field-level update. The model inserts the fields of the pydantic model as one
  new document under an identifier that no document of the collection has. Whatever
  timestamps the helper adds are not modelled; \<^verbatim>\<open>complete_day\<close> overwrites
  \<^verbatim>\<open>updated_at\<close> of the document it has just created.
\<close>

definition create_document_progress :: "progress_model \<Rightarrow> store \<Rightarrow> store" where
  "create_document_progress m s =
     (let i = fresh_oid (map p_id (progress_col s)) in
      s\<lparr>progress_col := progress_col s @
           [\<lparr>p_id = i, p_user_email = m_user_email m, p_challenge_slug = m_challenge_slug m,
             p_current_day = Some (m_current_day m),
             p_completed_days = Some (m_completed_days m),
             p_last_completed_date = m_last_completed_date m,
             p_updated_at = None\<rparr>],
        oplog := oplog s @ [InsertOne ''progress'' i]\<rparr>)"

section \<open>Completing a day\<close>

text \<open>The request body \<^verbatim>\<open>CompletePayload\<close> (src/main.py, lines 179-182).\<close>

record CompletePayload =
  user_email :: string
  challenge_slug :: string
  day :: int

text \<open>
  What the request reads from the outside world: \<^verbatim>\<open>date.today()\<close> (line 215) and the two
  calls of \<^verbatim>\<open>_now()\<close>, for the progress update (line 247) and the user update (line 254).
\<close>

record clock =
  today :: date
  now_progress :: datetime
  now_user :: datetime

datatype error = HTTPException nat string | AttributeError

record response =
  ok :: bool
  user :: "user_doc option"
  progress :: "progress_doc option"

text \<open>
  \<^verbatim>\<open>_sanitize\<close> (lines 312-318) returns a falsy document as it is and otherwise a copy in
  which the key \<^verbatim>\<open>_id\<close> is renamed to \<^verbatim>\<open>id\<close>, its value rendered as a string. The fields
  \<^const>\<open>u_id\<close> and \<^const>\<open>p_id\<close> stand for either key.
\<close>

definition sanitize :: "'a option \<Rightarrow> 'a option" where
  "sanitize doc = (case doc of None \<Rightarrow> None | Some d \<Rightarrow> Some d)"

text \<open>The filters of lines 200 and 204.\<close>

definition user_filter :: "CompletePayload \<Rightarrow> user_doc \<Rightarrow> bool" where
  "user_filter payload u \<longleftrightarrow> u_email u = user_email payload"

definition progress_filter :: "CompletePayload \<Rightarrow> progress_doc \<Rightarrow> bool" where
  "progress_filter payload p \<longleftrightarrow>
     p_user_email p = user_email payload \<and> p_challenge_slug p = challenge_slug payload"

text \<open>Lines 204-207: the progress document is created when the pair has none.\<close>

definition ensure_progress :: "CompletePayload \<Rightarrow> store \<Rightarrow> store" where
  "ensure_progress payload s =
     (case find_one (progress_filter payload) (progress_col s) of
        Some _ \<Rightarrow> s
      | None \<Rightarrow>
          create_document_progress (Progress (user_email payload) (challenge_slug payload)) s)"

text \<open>The reads with defaults of lines 210, 218, 219, 235 and 240.\<close>

definition completed_days_of :: "progress_doc \<Rightarrow> int list" where
  "completed_days_of prog = dict_get (p_completed_days prog) []"

definition current_day_of :: "progress_doc \<Rightarrow> int" where
  "current_day_of prog = dict_get (p_current_day prog) 1"

definition streak_of :: "user_doc \<Rightarrow> int" where
  "streak_of u = dict_get (u_streak u) 0"

definition longest_of :: "user_doc \<Rightarrow> int" where
  "longest_of u = dict_get (u_longest_streak u) 0"

definition points_of :: "user_doc \<Rightarrow> int" where
  "points_of u = dict_get (u_points u) 0"

text \<open>Lines 221-231: the streak from today's date, the last completion date and the old streak.\<close>

definition streak_logic :: "date \<Rightarrow> date option \<Rightarrow> int \<Rightarrow> int" where
  "streak_logic tday last_date streak =
     (case last_date of
        None \<Rightarrow> 1
      | Some d \<Rightarrow>
          (let delta = tday - d in
           if delta = 1 then streak + 1
           else if delta = 0 then max 1 streak
           else 1))"

text \<open>
  Lines 210-212 and 240-248: the fields that the progress update sets in a document \<open>p\<close>,
  computed from the progress document \<open>prog\<close> that the request has read.
\<close>

definition progress_set ::
  "CompletePayload \<Rightarrow> clock \<Rightarrow> progress_doc \<Rightarrow> progress_doc \<Rightarrow> progress_doc" where
  "progress_set payload clk prog p =
     (let completed0 = completed_days_of prog;
          completed = (if day payload \<notin> set completed0
                       then completed0 @ [day payload] else completed0);
          current_day = max (current_day_of prog) (day payload + 1)
      in p\<lparr>p_completed_days := Some (sort completed),
            p_current_day := Some current_day,
            p_last_completed_date := Some (today clk),
            p_updated_at := Some (now_progress clk)\<rparr>)"

text \<open>
  Lines 214-237 and 252-255: the fields that the user update sets in a document \<open>u\<close>,
  computed from the documents \<open>usr\<close> and \<open>prog\<close> that the request has read.
\<close>

definition user_set :: "clock \<Rightarrow> progress_doc \<Rightarrow> user_doc \<Rightarrow> user_doc \<Rightarrow> user_doc" where
  "user_set clk prog usr u =
     (let last_date = p_last_completed_date prog;
          streak = streak_logic (today clk) last_date (streak_of usr);
          longest = max (longest_of usr) streak;
          points0 = points_of usr + 10;
          points = (if streak mod 5 = 0 then points0 + 5 else points0)
      in u\<lparr>u_streak := Some streak,
            u_longest_streak := Some longest,
            u_points := Some points,
            u_updated_at := Some (now_user clk)\<rparr>)"

text \<open>
  \<^verbatim>\<open>complete_day\<close> once \<^verbatim>\<open>_collection\<close> has returned both collections. A second lookup that
  finds no progress document makes \<^verbatim>\<open>prog.get\<close> raise \<^verbatim>\<open>AttributeError\<close> (line 210).
\<close>

definition complete_day_db :: "CompletePayload \<Rightarrow> clock \<Rightarrow> store \<Rightarrow> (error + response) \<times> store" where
  "complete_day_db payload clk s =
     (case find_one (user_filter payload) (user_col s) of
        None \<Rightarrow> (Inl (HTTPException 404 ''User not found''), s)
      | Some usr \<Rightarrow>
          (let s1 = ensure_progress payload s in
           case find_one (progress_filter payload) (progress_col s1) of
             None \<Rightarrow> (Inl AttributeError, s1)
           | Some prog \<Rightarrow>
               (let s2 = update_one_progress (p_id prog) (progress_set payload clk prog) s1;
                    s3 = update_one_user (u_id usr) (user_set clk prog usr) s2;
                    updated_user = find_one (\<lambda>u. u_id u = u_id usr) (user_col s3);
                    updated_prog = find_one (\<lambda>p. p_id p = p_id prog) (progress_col s3)
                in (Inr \<lparr>ok = True, user = sanitize updated_user,
                         progress = sanitize updated_prog\<rparr>, s3))))"

text \<open>
  The handler: \<^verbatim>\<open>_collection\<close> (lines 62-65) raises the HTTP error 500 when the module has
  no database.
\<close>

definition complete_day ::
  "CompletePayload \<Rightarrow> clock \<Rightarrow> store option \<Rightarrow> (error + response) \<times> store option" where
  "complete_day payload clk db =
     (case db of
        None \<Rightarrow> (Inl (HTTPException 500 ''Database not configured''), None)
      | Some s \<Rightarrow> (case complete_day_db payload clk s of (r, s') \<Rightarrow> (r, Some s')))"

section \<open>Sequences of requests and well-formed stores\<close>

text \<open>A sequence of requests against one database, each with its own clock readings.\<close>

fun run_requests :: "(CompletePayload \<times> clock) list \<Rightarrow> store option \<Rightarrow> store option" where
  "run_requests [] db = db"
| "run_requests ((payload, clk) # rs) db = run_requests rs (snd (complete_day payload clk db))"

text \<open>MongoDB keeps \<^verbatim>\<open>_id\<close> unique within a collection.\<close>

definition wf_store :: "store \<Rightarrow> bool" where
  "wf_store s \<longleftrightarrow> distinct (map u_id (user_col s)) \<and> distinct (map p_id (progress_col s))"

text \<open>
  The document that \<^const>\<open>ensure_progress\<close> adds for a pair that has none: the defaults
  of the pydantic model under a new identifier.
\<close>

definition fresh_progress :: "CompletePayload \<Rightarrow> store \<Rightarrow> progress_doc" where
  "fresh_progress payload s =
     \<lparr>p_id = fresh_oid (map p_id (progress_col s)), p_user_email = user_email payload,
      p_challenge_slug = challenge_slug payload, p_current_day = Some 1,
      p_completed_days = Some [], p_last_completed_date = None, p_updated_at = None\<rparr>"

text \<open>
  The parts of the two documents that the data model of the spec (section 3) lists:
  the gamification stats of a user, and the state of a progress record.
\<close>

definition user_stats :: "user_doc \<Rightarrow> int option \<times> int option \<times> int option" where
  "user_stats u = (u_points u, u_streak u, u_longest_streak u)"

definition progress_record :: "progress_doc \<Rightarrow> int option \<times> int list option \<times> date option" where
  "progress_record p = (p_current_day p, p_completed_days p, p_last_completed_date p)"

text \<open>What a request returns, read off the outcome of the handler.\<close>

definition returned_user :: "(error + response) \<times> store option \<Rightarrow> user_doc option" where
  "returned_user out = (case fst out of Inl _ \<Rightarrow> None | Inr resp \<Rightarrow> user resp)"

definition returned_progress :: "(error + response) \<times> store option \<Rightarrow> progress_doc option" where
  "returned_progress out = (case fst out of Inl _ \<Rightarrow> None | Inr resp \<Rightarrow> progress resp)"

definition written :: "(error + response) \<times> store option \<Rightarrow> write_op list" where
  "written out = (case snd out of None \<Rightarrow> [] | Some s \<Rightarrow> oplog s)"

section \<open>Example data\<close>

definition ada :: "int \<Rightarrow> int \<Rightarrow> int \<Rightarrow> user_doc" where
  "ada pts strk lng =
     \<lparr>u_id = 7, u_name = ''Ada'', u_email = ''ada@example.com'', u_points = Some pts,
      u_streak = Some strk, u_longest_streak = Some lng, u_badges = [], u_is_active = True,
      u_updated_at = None\<rparr>"

definition bob :: user_doc where
  "bob =
     \<lparr>u_id = 3, u_name = ''Bob'', u_email = ''bob@example.com'', u_points = None,
      u_streak = None, u_longest_streak = None, u_badges = [], u_is_active = True,
      u_updated_at = None\<rparr>"

definition ada_progress :: "int \<Rightarrow> int list \<Rightarrow> date \<Rightarrow> progress_doc" where
  "ada_progress cur ds ld =
     \<lparr>p_id = 4, p_user_email = ''ada@example.com'', p_challenge_slug = ''ai-productivity'',
      p_current_day = Some cur, p_completed_days = Some ds,
      p_last_completed_date = Some ld, p_updated_at = None\<rparr>"

definition ada_fresh :: progress_doc where
  "ada_fresh =
     \<lparr>p_id = 4, p_user_email = ''ada@example.com'', p_challenge_slug = ''ai-productivity'',
      p_current_day = Some 1, p_completed_days = Some [], p_last_completed_date = None,
      p_updated_at = None\<rparr>"

definition ada_payload :: "int \<Rightarrow> CompletePayload" where
  "ada_payload d =
     \<lparr>user_email = ''ada@example.com'', challenge_slug = ''ai-productivity'', day = d\<rparr>"

definition bob_payload :: "int \<Rightarrow> CompletePayload" where
  "bob_payload d =
     \<lparr>user_email = ''bob@example.com'', challenge_slug = ''design-foundations'', day = d\<rparr>"

definition carol :: "int \<Rightarrow> int \<Rightarrow> int \<Rightarrow> user_doc" where
  "carol pts strk lng =
     \<lparr>u_id = 9, u_name = ''Carol'', u_email = ''carol@example.com'', u_points = Some pts,
      u_streak = Some strk, u_longest_streak = Some lng, u_badges = [''early-bird''],
      u_is_active = True, u_updated_at = Some 17\<rparr>"

definition carol_progress :: "int \<Rightarrow> int list \<Rightarrow> date \<Rightarrow> progress_doc" where
  "carol_progress cur ds ld =
     \<lparr>p_id = 2, p_user_email = ''carol@example.com'', p_challenge_slug = ''design-foundations'',
      p_current_day = Some cur, p_completed_days = Some ds,
      p_last_completed_date = Some ld, p_updated_at = Some 17\<rparr>"

definition carol_payload :: "int \<Rightarrow> CompletePayload" where
  "carol_payload d =
     \<lparr>user_email = ''carol@example.com'', challenge_slug = ''design-foundations'', day = d\<rparr>"

definition at_day :: "date \<Rightarrow> clock" where
  "at_day d = \<lparr>today = d, now_progress = 24 * d + 9, now_user = 24 * d + 10\<rparr>"

section \<open>Lookups and updates in a collection\<close>

lemma find_one_append:
  "find_one flt (xs @ ys) = (case find_one flt xs of Some x \<Rightarrow> Some x | None \<Rightarrow> find_one flt ys)"
  by (induction xs) auto

lemma find_one_SomeD: "find_one flt xs = Some x \<Longrightarrow> flt x \<and> x \<in> set xs"
  by (induction xs) (auto split: if_splits)

lemma find_one_None_iff: "find_one flt xs = None \<longleftrightarrow> (\<forall>x\<in>set xs. \<not> flt x)"
  by (induction xs) auto

lemma update_first_distinct:
  "distinct (map k xs) \<Longrightarrow>
   update_first (\<lambda>x. k x = i) f xs = map (\<lambda>x. if k x = i then f x else x) xs"
proof (induction xs)
  case Nil
  show ?case by simp
next
  case (Cons d ds)
  show ?case
  proof (cases "k d = i")
    case True
    with Cons.prems have "i \<notin> k ` set ds" by simp
    then have "\<forall>x\<in>set ds. k x \<noteq> i" by blast
    then have "map (\<lambda>x. if k x = i then f x else x) ds = ds" by (simp add: map_idI)
    with True show ?thesis by simp
  next
    case False
    with Cons show ?thesis by simp
  qed
qed

lemma find_one_map:
  "(\<And>x. flt (g x) = flt x) \<Longrightarrow> find_one flt (map g xs) = map_option g (find_one flt xs)"
  by (induction xs) auto

lemma find_one_by_key:
  "distinct (map k xs) \<Longrightarrow> x \<in> set xs \<Longrightarrow> find_one (\<lambda>y. k y = k x) xs = Some x"
  by (induction xs) (auto simp: image_iff)

lemma same_key_same_doc:
  "distinct (map k xs) \<Longrightarrow> x \<in> set xs \<Longrightarrow> y \<in> set xs \<Longrightarrow> k x = k y \<Longrightarrow> x = y"
  by (auto simp: distinct_map dest: inj_onD)

lemma map_update_by_key:
  assumes "distinct (map k xs)" and "x \<in> set xs"
  shows "map (\<lambda>y. if k y = k x then f y else y) xs = map (\<lambda>y. if k y = k x then f x else y) xs"
proof (rule map_cong [OF refl])
  fix y assume "y \<in> set xs"
  moreover have "inj_on k (set xs)" using assms(1) by (simp add: distinct_map)
  ultimately have "k y = k x \<Longrightarrow> y = x" using assms(2) by (auto dest: inj_onD)
  then show "(if k y = k x then f y else y) = (if k y = k x then f x else y)" by auto
qed

lemma notin_map_key: "i \<notin> set (map k xs) \<Longrightarrow> \<forall>x\<in>set xs. k x \<noteq> i"
  by (auto simp: image_iff)

lemma fold_max_ge: "(a::nat) \<le> fold max xs a \<and> (\<forall>x\<in>set xs. x \<le> fold max xs a)"
proof (induction xs arbitrary: a)
  case Nil
  show ?case by simp
next
  case (Cons y ys)
  have "max y a \<le> fold max ys (max y a)" and "\<forall>x\<in>set ys. x \<le> fold max ys (max y a)"
    using Cons.IH [of "max y a"] by simp_all
  then show ?case by auto
qed

lemma fresh_oid_notin: "fresh_oid ids \<notin> set ids"
proof
  assume "fresh_oid ids \<in> set ids"
  then have "fresh_oid ids \<le> fold max ids 0" using fold_max_ge [of 0 ids] by blast
  then show False by (simp add: fresh_oid_def)
qed

section \<open>One request\<close>

lemma user_set_frame [simp]:
  "u_id (user_set clk prog usr u) = u_id u"
  "u_email (user_set clk prog usr u) = u_email u"
  "u_name (user_set clk prog usr u) = u_name u"
  "u_badges (user_set clk prog usr u) = u_badges u"
  "u_is_active (user_set clk prog usr u) = u_is_active u"
  by (simp_all add: user_set_def Let_def)

lemma progress_set_frame [simp]:
  "p_id (progress_set pl clk prog p) = p_id p"
  "p_user_email (progress_set pl clk prog p) = p_user_email p"
  "p_challenge_slug (progress_set pl clk prog p) = p_challenge_slug p"
  by (simp_all add: progress_set_def Let_def)

lemma user_filter_user_set [simp]:
  "user_filter q (user_set clk prog usr u) = user_filter q u"
  by (simp add: user_filter_def)

lemma progress_filter_progress_set [simp]:
  "progress_filter q (progress_set pl clk prog p) = progress_filter q p"
  by (simp add: progress_filter_def)

lemma longest_of_user_set:
  "longest_of (user_set clk prog usr u) =
     max (longest_of usr) (streak_logic (today clk) (p_last_completed_date prog) (streak_of usr))"
  by (simp add: user_set_def Let_def longest_of_def dict_get_def)

lemma streak_of_user_set:
  "streak_of (user_set clk prog usr u) =
     streak_logic (today clk) (p_last_completed_date prog) (streak_of usr)"
  by (simp add: user_set_def Let_def streak_of_def dict_get_def)

lemma streak_logic_at_least_one:
  assumes "0 \<le> streak \<or> (\<forall>d. last_date = Some d \<longrightarrow> tday - d \<noteq> 1)"
  shows "1 \<le> streak_logic tday last_date streak"
  using assms by (cases last_date) (auto simp: streak_logic_def Let_def)

text \<open>
  The lower bound on the stored streak is needed in one branch only, a completion on the
  day after the last one: there a stored streak of -1 would give 0.
\<close>

lemma negative_streak_kept:
  "streak_logic 101 (Some 100) (- 1) = 0"
  by (simp add: streak_logic_def)

lemma completed_days_progress_set:
  "p_completed_days (progress_set pl clk prog p) =
     Some (sort (if day pl \<notin> set (completed_days_of prog)
                 then completed_days_of prog @ [day pl] else completed_days_of prog))"
  by (simp add: progress_set_def Let_def)

lemma sort_completed:
  assumes "distinct xs"
  shows "sort (if d \<notin> set xs then xs @ [d] else xs) = sorted_list_of_set (set xs \<union> {d})"
proof -
  let ?ys = "if d \<notin> set xs then xs @ [d] else xs"
  have "distinct ?ys" and "set ?ys = set xs \<union> {d}" using assms by auto
  then show ?thesis
    by (metis sorted_list_of_set_sort_remdups distinct_remdups_id)
qed

lemma ensure_progress_user_col [simp]: "user_col (ensure_progress pl s) = user_col s"
  by (simp add: ensure_progress_def create_document_progress_def Let_def split: option.splits)

lemma ensure_progress_present:
  "find_one (progress_filter pl) (progress_col s) = Some p \<Longrightarrow> ensure_progress pl s = s"
  by (simp add: ensure_progress_def)

lemma ensure_progress_absent:
  assumes "find_one (progress_filter pl) (progress_col s) = None"
  shows "ensure_progress pl s =
           s\<lparr>progress_col := progress_col s @ [fresh_progress pl s],
             oplog := oplog s @ [InsertOne ''progress'' (fresh_oid (map p_id (progress_col s)))]\<rparr>"
    and "find_one (progress_filter pl) (progress_col (ensure_progress pl s)) =
           Some (fresh_progress pl s)"
  using assms
  by (simp_all add: ensure_progress_def create_document_progress_def Progress_def Let_def
        fresh_progress_def find_one_append progress_filter_def)

lemma ensure_progress_found:
  "\<exists>prog. find_one (progress_filter pl) (progress_col (ensure_progress pl s)) = Some prog"
proof (cases "find_one (progress_filter pl) (progress_col s)")
  case None
  then show ?thesis using ensure_progress_absent(2) by blast
next
  case (Some p)
  then show ?thesis by (simp add: ensure_progress_present)
qed

lemma ensure_progress_members:
  "set (progress_col (ensure_progress pl s)) \<subseteq> insert (fresh_progress pl s) (set (progress_col s))"
  by (cases "find_one (progress_filter pl) (progress_col s)")
     (simp_all add: ensure_progress_present ensure_progress_absent(1) subset_insertI)

lemma ensure_progress_keeps:
  "find_one (progress_filter q) (progress_col s) = Some p0 \<Longrightarrow>
   find_one (progress_filter q) (progress_col (ensure_progress pl s)) = Some p0"
  by (cases "find_one (progress_filter pl) (progress_col s)")
     (simp_all add: ensure_progress_present ensure_progress_absent(1) find_one_append)

lemma wf_store_ensure_progress: "wf_store s \<Longrightarrow> wf_store (ensure_progress pl s)"
  using fresh_oid_notin [of "map p_id (progress_col s)"]
  by (auto simp: wf_store_def ensure_progress_def create_document_progress_def Let_def
        split: option.splits)

lemma complete_day_db_success:
  assumes wf: "wf_store s"
    and u: "find_one (user_filter pl) (user_col s) = Some usr"
    and p: "find_one (progress_filter pl) (progress_col (ensure_progress pl s)) = Some prog"
  shows "complete_day_db pl clk s =
    (Inr \<lparr>ok = True, user = Some (user_set clk prog usr usr),
          progress = Some (progress_set pl clk prog prog)\<rparr>,
     \<lparr>user_col = map (\<lambda>u. if u_id u = u_id usr then user_set clk prog usr u else u) (user_col s),
      progress_col = map (\<lambda>p. if p_id p = p_id prog then progress_set pl clk prog p else p)
                       (progress_col (ensure_progress pl s)),
      oplog = oplog (ensure_progress pl s) @
                [UpdateOne ''progress'' (p_id prog), UpdateOne ''user'' (u_id usr)]\<rparr>)"
proof -
  let ?s1 = "ensure_progress pl s"
  let ?g = "\<lambda>p. if p_id p = p_id prog then progress_set pl clk prog p else p"
  let ?h = "\<lambda>u. if u_id u = u_id usr then user_set clk prog usr u else u"
  have wf1: "wf_store ?s1" using wf by (rule wf_store_ensure_progress)
  have dp: "distinct (map p_id (progress_col ?s1))" and du: "distinct (map u_id (user_col s))"
    using wf wf1 by (simp_all add: wf_store_def)
  have pin: "prog \<in> set (progress_col ?s1)" and uin: "usr \<in> set (user_col s)"
    using p u find_one_SomeD by fastforce+
  have fp: "find_one (\<lambda>q. p_id q = p_id prog) (progress_col ?s1) = Some prog"
    using dp pin by (rule find_one_by_key)
  have fu: "find_one (\<lambda>v. u_id v = u_id usr) (user_col s) = Some usr"
    using du uin by (rule find_one_by_key)
  have up: "update_first (\<lambda>q. p_id q = p_id prog) (progress_set pl clk prog) (progress_col ?s1)
              = map ?g (progress_col ?s1)"
    using dp by (rule update_first_distinct)
  have uu: "update_first (\<lambda>v. u_id v = u_id usr) (user_set clk prog usr) (user_col s)
              = map ?h (user_col s)"
    using du by (rule update_first_distinct)
  have s2: "update_one_progress (p_id prog) (progress_set pl clk prog) ?s1 =
              ?s1\<lparr>progress_col := map ?g (progress_col ?s1),
                  oplog := oplog ?s1 @ [UpdateOne ''progress'' (p_id prog)]\<rparr>"
    by (simp add: update_one_progress_def fp up)
  have fp': "find_one (\<lambda>q. p_id q = p_id prog) (map ?g (progress_col ?s1)) = Some (?g prog)"
    using fp by (subst find_one_map) simp_all
  have fu': "find_one (\<lambda>v. u_id v = u_id usr) (map ?h (user_col s)) = Some (?h usr)"
    using fu by (subst find_one_map) simp_all
  show ?thesis
    unfolding complete_day_db_def Let_def
    by (simp add: u p s2 update_one_user_def fu uu fp' fu' sanitize_def)
qed

lemma complete_day_success:
  assumes wf: "wf_store s"
    and u: "find_one (user_filter pl) (user_col s) = Some usr"
    and p: "find_one (progress_filter pl) (progress_col (ensure_progress pl s)) = Some prog"
  shows "\<exists>s'. complete_day pl clk (Some s) =
            (Inr \<lparr>ok = True, user = Some (user_set clk prog usr usr),
                  progress = Some (progress_set pl clk prog prog)\<rparr>, Some s')
          \<and> find_one (user_filter pl) (user_col s') = Some (user_set clk prog usr usr)
          \<and> find_one (progress_filter pl) (progress_col s') = Some (progress_set pl clk prog prog)"
proof -
  let ?g = "\<lambda>p. if p_id p = p_id prog then progress_set pl clk prog p else p"
  let ?h = "\<lambda>u. if u_id u = u_id usr then user_set clk prog usr u else u"
  have fu: "find_one (user_filter pl) (map ?h (user_col s)) = Some (?h usr)"
    using u by (subst find_one_map) simp_all
  have fp: "find_one (progress_filter pl) (map ?g (progress_col (ensure_progress pl s)))
              = Some (?g prog)"
    using p by (subst find_one_map) simp_all
  show ?thesis
    by (simp add: complete_day_def complete_day_db_success [OF wf u p] fu fp)
qed

lemma complete_day_store:
  assumes wf: "wf_store s"
    and u: "find_one (user_filter pl) (user_col s) = Some usr"
    and p: "find_one (progress_filter pl) (progress_col (ensure_progress pl s)) = Some prog"
  shows "complete_day pl clk (Some s) =
    (Inr \<lparr>ok = True, user = Some (user_set clk prog usr usr),
          progress = Some (progress_set pl clk prog prog)\<rparr>,
     Some \<lparr>user_col = map (\<lambda>u. if u_id u = u_id usr then user_set clk prog usr usr else u)
                         (user_col s),
           progress_col = map (\<lambda>p. if p_id p = p_id prog then progress_set pl clk prog prog else p)
                            (progress_col (ensure_progress pl s)),
           oplog = oplog (ensure_progress pl s) @
                     [UpdateOne ''progress'' (p_id prog), UpdateOne ''user'' (u_id usr)]\<rparr>)"
proof -
  have wf1: "wf_store (ensure_progress pl s)" using wf by (rule wf_store_ensure_progress)
  have dp: "distinct (map p_id (progress_col (ensure_progress pl s)))"
    and du: "distinct (map u_id (user_col s))"
    using wf wf1 by (simp_all add: wf_store_def)
  have pin: "prog \<in> set (progress_col (ensure_progress pl s))" and uin: "usr \<in> set (user_col s)"
    using p u find_one_SomeD by fastforce+
  show ?thesis
    by (simp add: complete_day_def complete_day_db_success [OF wf u p]
          map_update_by_key [OF dp pin, of "progress_set pl clk prog"]
          map_update_by_key [OF du uin, of "user_set clk prog usr"])
qed

lemma complete_day_step:
  assumes wf: "wf_store s"
  obtains (unknown) "find_one (user_filter pl) (user_col s) = None"
      and "complete_day pl clk (Some s) = (Inl (HTTPException 404 ''User not found''), Some s)"
  | (known) usr prog resp s' where "find_one (user_filter pl) (user_col s) = Some usr"
      and "find_one (progress_filter pl) (progress_col (ensure_progress pl s)) = Some prog"
      and "complete_day pl clk (Some s) = (Inr resp, Some s')"
      and "user_col s' =
             map (\<lambda>u. if u_id u = u_id usr then user_set clk prog usr u else u) (user_col s)"
      and "progress_col s' =
             map (\<lambda>p. if p_id p = p_id prog then progress_set pl clk prog p else p)
               (progress_col (ensure_progress pl s))"
proof (cases "find_one (user_filter pl) (user_col s)")
  case None
  then show ?thesis using unknown by (simp add: complete_day_def complete_day_db_def)
next
  case (Some usr)
  obtain prog where
    p: "find_one (progress_filter pl) (progress_col (ensure_progress pl s)) = Some prog"
    using ensure_progress_found by blast
  let ?s' = "\<lparr>user_col = map (\<lambda>u. if u_id u = u_id usr then user_set clk prog usr u else u)
                          (user_col s),
             progress_col = map (\<lambda>p. if p_id p = p_id prog then progress_set pl clk prog p
                                     else p) (progress_col (ensure_progress pl s)),
             oplog = oplog (ensure_progress pl s) @
                       [UpdateOne ''progress'' (p_id prog), UpdateOne ''user'' (u_id usr)]\<rparr>"
  have run: "complete_day pl clk (Some s) =
               (Inr \<lparr>ok = True, user = Some (user_set clk prog usr usr),
                     progress = Some (progress_set pl clk prog prog)\<rparr>, Some ?s')"
    by (simp add: complete_day_def complete_day_db_success [OF wf Some p])
  show ?thesis
    by (rule known [OF Some p run]) simp_all
qed

lemma complete_day_no_database:
  "complete_day pl clk None = (Inl (HTTPException 500 ''Database not configured''), None)"
  by (simp add: complete_day_def)

section \<open>Sequences of requests\<close>

lemma wf_store_complete_day:
  assumes "wf_store s"
  shows "\<exists>s'. snd (complete_day pl clk (Some s)) = Some s' \<and> wf_store s'"
  using assms
proof (cases rule: complete_day_step [of s pl clk])
  case unknown
  then show ?thesis using assms by simp
next
  case (known usr prog resp s')
  have "wf_store (ensure_progress pl s)" using assms by (rule wf_store_ensure_progress)
  then have "wf_store s'"
    unfolding wf_store_def known(4,5) by (simp add: comp_def if_distrib cong: if_cong)
  with known(3) show ?thesis by simp
qed

lemma run_requests_invariant:
  assumes "P s"
    and step: "\<And>s pl clk. P s \<Longrightarrow> \<exists>s'. snd (complete_day pl clk (Some s)) = Some s' \<and> P s'"
  shows "\<exists>s'. run_requests rs (Some s) = Some s' \<and> P s'"
  using assms(1)
proof (induction rs arbitrary: s)
  case Nil
  then show ?case by simp
next
  case (Cons r rs)
  obtain pl clk where r: "r = (pl, clk)" by (cases r)
  from step [OF Cons.prems, of pl clk] obtain s1
    where s1: "snd (complete_day pl clk (Some s)) = Some s1" and "P s1" by blast
  from Cons.IH [OF \<open>P s1\<close>] show ?case by (simp add: r s1)
qed

lemma current_day_step:
  assumes wf: "wf_store s"
    and q: "find_one (progress_filter q) (progress_col s) = Some p0"
  shows "\<exists>s' p1. snd (complete_day pl clk (Some s)) = Some s'
           \<and> find_one (progress_filter q) (progress_col s') = Some p1
           \<and> current_day_of p0 \<le> current_day_of p1"
  using wf
proof (cases rule: complete_day_step [of s pl clk])
  case unknown
  then show ?thesis using q by simp
next
  case (known usr prog resp s')
  let ?g = "\<lambda>p. if p_id p = p_id prog then progress_set pl clk prog p else p"
  have q1: "find_one (progress_filter q) (progress_col (ensure_progress pl s)) = Some p0"
    using q by (rule ensure_progress_keeps)
  have f: "find_one (progress_filter q) (progress_col s') = Some (?g p0)"
    unfolding known(5) using q1 by (subst find_one_map) simp_all
  have "current_day_of p0 \<le> current_day_of (?g p0)"
  proof (cases "p_id p0 = p_id prog")
    case True
    have "wf_store (ensure_progress pl s)" using wf by (rule wf_store_ensure_progress)
    then have "distinct (map p_id (progress_col (ensure_progress pl s)))"
      by (simp add: wf_store_def)
    moreover have "p0 \<in> set (progress_col (ensure_progress pl s))"
      and "prog \<in> set (progress_col (ensure_progress pl s))"
      using q1 known(2) find_one_SomeD by fastforce+
    ultimately have "p0 = prog" using True by (rule same_key_same_doc)
    then show ?thesis
      by (simp add: progress_set_def Let_def current_day_of_def dict_get_def)
  next
    case False
    then show ?thesis by simp
  qed
  with f known(3) show ?thesis by simp
qed

lemma completed_days_step:
  assumes wf: "wf_store s"
    and inv: "\<forall>p\<in>set (progress_col s). sorted_wrt (<) (completed_days_of p)"
  shows "\<exists>s'. snd (complete_day pl clk (Some s)) = Some s'
           \<and> (\<forall>p\<in>set (progress_col s'). sorted_wrt (<) (completed_days_of p))"
  using wf
proof (cases rule: complete_day_step [of s pl clk])
  case unknown
  then show ?thesis using inv by simp
next
  case (known usr prog resp s')
  have "completed_days_of (fresh_progress pl s) = []"
    by (simp add: fresh_progress_def completed_days_of_def dict_get_def)
  then have inv1: "\<forall>p\<in>set (progress_col (ensure_progress pl s)).
                     sorted_wrt (<) (completed_days_of p)"
    using inv ensure_progress_members [of pl s] by auto
  have "prog \<in> set (progress_col (ensure_progress pl s))"
    using known(2) find_one_SomeD by fastforce
  with inv1 have "distinct (completed_days_of prog)" by (simp add: strict_sorted_iff)
  then have "completed_days_of (progress_set pl clk prog p) =
               sorted_list_of_set (set (completed_days_of prog) \<union> {day pl})" for p
    by (simp add: completed_days_of_def [of "progress_set pl clk prog p"] dict_get_def
          completed_days_progress_set sort_completed)
  then have new: "sorted_wrt (<) (completed_days_of (progress_set pl clk prog p))" for p
    by (simp only: strict_sorted_list_of_set)
  have "\<forall>p\<in>set (progress_col s'). sorted_wrt (<) (completed_days_of p)"
    unfolding known(5) using inv1 new by auto
  with known(3) show ?thesis by simp
qed

lemma streak_nonneg_step:
  assumes wf: "wf_store s"
    and inv: "\<forall>u\<in>set (user_col s). 0 \<le> streak_of u"
  shows "\<exists>s'. snd (complete_day pl clk (Some s)) = Some s'
           \<and> (\<forall>u\<in>set (user_col s'). 0 \<le> streak_of u)"
  using wf
proof (cases rule: complete_day_step [of s pl clk])
  case unknown
  then show ?thesis using inv by simp
next
  case (known usr prog resp s')
  from known(1) have "usr \<in> set (user_col s)" using find_one_SomeD by fastforce
  with inv have "0 \<le> streak_of usr" by simp
  then have "1 \<le> streak_logic (today clk) (p_last_completed_date prog) (streak_of usr)"
    by (simp add: streak_logic_at_least_one)
  then have new: "0 \<le> streak_of (user_set clk prog usr u)" for u
    by (simp add: streak_of_user_set)
  have "\<forall>u\<in>set (user_col s'). 0 \<le> streak_of u"
    unfolding known(4) using inv new by auto
  with known(3) show ?thesis by simp
qed

lemma recorded_longest_step:
  assumes wf: "wf_store s"
    and inv: "\<forall>p\<in>set (progress_col s). p_last_completed_date p \<noteq> None \<longrightarrow>
                (\<exists>u. find_one (\<lambda>u. u_email u = p_user_email p) (user_col s) = Some u
                     \<and> 1 \<le> longest_of u)"
  shows "\<exists>s'. snd (complete_day pl clk (Some s)) = Some s'
           \<and> (\<forall>p\<in>set (progress_col s'). p_last_completed_date p \<noteq> None \<longrightarrow>
                (\<exists>u. find_one (\<lambda>u. u_email u = p_user_email p) (user_col s') = Some u
                     \<and> 1 \<le> longest_of u))"
  using wf
proof (cases rule: complete_day_step [of s pl clk])
  case unknown
  then show ?thesis using inv by simp
next
  case (known usr prog resp s')
  let ?h = "\<lambda>u. if u_id u = u_id usr then user_set clk prog usr u else u"
  let ?g = "\<lambda>p. if p_id p = p_id prog then progress_set pl clk prog p else p"
  let ?s1 = "ensure_progress pl s"
  have du: "distinct (map u_id (user_col s))" using wf by (simp add: wf_store_def)
  have "wf_store ?s1" using wf by (rule wf_store_ensure_progress)
  then have dp: "distinct (map p_id (progress_col ?s1))" by (simp add: wf_store_def)
  have uin: "usr \<in> set (user_col s)" and umail: "u_email usr = user_email pl"
    using known(1) find_one_SomeD [of "user_filter pl" "user_col s" usr]
    by (simp_all add: user_filter_def)
  have pin: "prog \<in> set (progress_col ?s1)" and pmail: "p_user_email prog = user_email pl"
    using known(2) find_one_SomeD [of "progress_filter pl" "progress_col ?s1" prog]
    by (simp_all add: progress_filter_def)
  have fu: "find_one (\<lambda>u. u_email u = user_email pl) (user_col s) = Some usr"
    using known(1) by (simp add: user_filter_def [abs_def])
  have look: "find_one (\<lambda>u. u_email u = e) (user_col s') =
                map_option ?h (find_one (\<lambda>u. u_email u = e) (user_col s))" for e
    unfolding known(4) by (rule find_one_map) simp
  have grow: "longest_of u \<le> longest_of (?h u)" if "u \<in> set (user_col s)" for u
  proof (cases "u_id u = u_id usr")
    case True
    with du that uin have "u = usr" by (rule same_key_same_doc)
    then show ?thesis by (simp add: longest_of_user_set)
  next
    case False
    then show ?thesis by simp
  qed
  have old: "\<exists>u. find_one (\<lambda>u. u_email u = p_user_email p) (user_col s') = Some u
                 \<and> 1 \<le> longest_of u"
    if "p \<in> set (progress_col ?s1)" and "p_last_completed_date p \<noteq> None" for p
  proof -
    have "p_last_completed_date (fresh_progress pl s) = None" by (simp add: fresh_progress_def)
    with that ensure_progress_members [of pl s] have "p \<in> set (progress_col s)" by auto
    with inv that(2) obtain u
      where f: "find_one (\<lambda>u. u_email u = p_user_email p) (user_col s) = Some u"
        and l: "1 \<le> longest_of u" by blast
    from f have "u \<in> set (user_col s)" using find_one_SomeD by fastforce
    from grow [OF this] l have "1 \<le> longest_of (?h u)" by linarith
    with f show ?thesis by (simp add: look)
  qed
  have "\<exists>u. find_one (\<lambda>u. u_email u = p_user_email p') (user_col s') = Some u
              \<and> 1 \<le> longest_of u"
    if p': "p' \<in> set (progress_col s')" and d: "p_last_completed_date p' \<noteq> None" for p'
  proof -
    from p' obtain p where p: "p \<in> set (progress_col ?s1)" and e: "p' = ?g p"
      unfolding known(5) by auto
    show ?thesis
    proof (cases "p_id p = p_id prog")
      case False
      with e have "p' = p" by simp
      with old [OF p] d show ?thesis by simp
    next
      case True
      with dp p pin have pp: "p = prog" by (rule same_key_same_doc)
      have mail: "p_user_email p' = user_email pl" using e True pp pmail by simp
      have found: "find_one (\<lambda>u. u_email u = p_user_email p') (user_col s')
                     = Some (user_set clk prog usr usr)"
        unfolding mail look fu by simp
      have "1 \<le> longest_of (user_set clk prog usr usr)"
      proof (cases "p_last_completed_date prog")
        case None
        then show ?thesis by (simp add: longest_of_user_set streak_logic_def)
      next
        case (Some d0)
        then have "p_last_completed_date prog \<noteq> None" by simp
        from old [OF pin this] obtain u
          where "find_one (\<lambda>u. u_email u = p_user_email prog) (user_col s') = Some u"
            and "1 \<le> longest_of u" by blast
        then show ?thesis using found mail pmail by simp
      qed
      with found show ?thesis by simp
    qed
  qed
  with known(3) show ?thesis by simp
qed

lemma recorded_completion_longest:
  assumes "wf_store s0"
    and "\<forall>p\<in>set (progress_col s0). p_last_completed_date p = None"
  shows "\<exists>s. run_requests rs (Some s0) = Some s
           \<and> (\<forall>pl usr prog.
                  find_one (user_filter pl) (user_col s) = Some usr
                \<and> find_one (progress_filter pl) (progress_col s) = Some prog
                \<and> p_last_completed_date prog \<noteq> None
                \<longrightarrow> 1 \<le> longest_of usr)"
proof -
  let ?J = "\<lambda>t. \<forall>p\<in>set (progress_col t). p_last_completed_date p \<noteq> None \<longrightarrow>
                (\<exists>u. find_one (\<lambda>u. u_email u = p_user_email p) (user_col t) = Some u
                     \<and> 1 \<le> longest_of u)"
  let ?P = "\<lambda>t. wf_store t \<and> ?J t"
  have start: "?P s0" using assms by simp
  have step: "\<exists>t'. snd (complete_day pl clk (Some t)) = Some t' \<and> ?P t'" if "?P t" for t pl clk
    using that wf_store_complete_day [of t pl clk] recorded_longest_step [of t pl clk] by auto
  from run_requests_invariant [of ?P s0 rs, OF start step] obtain s
    where run: "run_requests rs (Some s0) = Some s" and J: "?J s" by blast
  have "1 \<le> longest_of usr"
    if u: "find_one (user_filter pl) (user_col s) = Some usr"
      and p: "find_one (progress_filter pl) (progress_col s) = Some prog"
      and d: "p_last_completed_date prog \<noteq> None" for pl usr prog
  proof -
    from p have "prog \<in> set (progress_col s)" and "p_user_email prog = user_email pl"
      using find_one_SomeD [of "progress_filter pl" "progress_col s" prog]
      by (simp_all add: progress_filter_def)
    with J d obtain v where "find_one (\<lambda>u. u_email u = user_email pl) (user_col s) = Some v"
      and "1 \<le> longest_of v" by force
    with u show ?thesis by (simp add: user_filter_def [abs_def])
  qed
  with run show ?thesis by blast
qed

section \<open>Evaluating the example data\<close>

lemmas ex_defs = ada_def bob_def ada_progress_def ada_payload_def bob_payload_def at_day_def
  carol_def carol_progress_def carol_payload_def ada_fresh_def
  wf_store_def user_filter_def progress_filter_def ensure_progress_def
  create_document_progress_def Progress_def fresh_oid_def Let_def

lemmas run_defs = complete_day_def complete_day_db_def update_one_progress_def
  update_one_user_def progress_set_def user_set_def streak_logic_def sanitize_def
  completed_days_of_def current_day_of_def streak_of_def longest_of_def points_of_def
  dict_get_def returned_user_def returned_progress_def written_def

section \<open>The claims\<close>

text \<open>
  In the theorems below \<open>usr\<close> is the user document that the request finds for the e-mail
  address of the payload, and \<open>prog\<close> is the progress document it works on: the one stored
  for the pair of e-mail address and challenge slug, or the one with the defaults of the
  model (no last completion date, current day 1, no completed day) that the request creates
  when the pair has none (lemma \<open>ensure_progress_absent\<close>). The documents \<open>usr'\<close> and \<open>prog'\<close>
  are the ones the request returns, which are also the ones stored for the payload
  afterwards.
\<close>

subsection \<open>C1\<close>

text \<open>
  C1. Streak derivation: when the progress record has no last completion date the new
  streak is 1; when \<open>delta = today - last_completed_date\<close> is 1 the new streak is the previous
  streak plus 1; when \<open>delta > 1\<close> or \<open>delta < 0\<close> the new streak is 1.
\<close>

theorem C1_streak_derivation:
  assumes "wf_store s"
    and "find_one (user_filter pl) (user_col s) = Some usr"
    and "find_one (progress_filter pl) (progress_col (ensure_progress pl s)) = Some prog"
  shows "\<exists>resp s' usr'.
           complete_day pl clk (Some s) = (Inr resp, Some s')
         \<and> user resp = Some usr'
         \<and> find_one (user_filter pl) (user_col s') = Some usr'
         \<and> (p_last_completed_date prog = None \<longrightarrow> u_streak usr' = Some 1)
         \<and> (\<forall>d. p_last_completed_date prog = Some d \<and> today clk - d = 1
                \<longrightarrow> u_streak usr' = Some (streak_of usr + 1))
         \<and> (\<forall>d. p_last_completed_date prog = Some d \<and> (today clk - d > 1 \<or> today clk - d < 0)
                \<longrightarrow> u_streak usr' = Some 1)"
proof -
  obtain s' where run: "complete_day pl clk (Some s) =
      (Inr \<lparr>ok = True, user = Some (user_set clk prog usr usr),
            progress = Some (progress_set pl clk prog prog)\<rparr>, Some s')"
    and fu: "find_one (user_filter pl) (user_col s') = Some (user_set clk prog usr usr)"
    using complete_day_success [OF assms] by blast
  have "u_streak (user_set clk prog usr usr) =
          Some (streak_logic (today clk) (p_last_completed_date prog) (streak_of usr))"
    by (simp add: user_set_def Let_def)
  then have
    "(p_last_completed_date prog = None \<longrightarrow> u_streak (user_set clk prog usr usr) = Some 1)
     \<and> (\<forall>d. p_last_completed_date prog = Some d \<and> today clk - d = 1
            \<longrightarrow> u_streak (user_set clk prog usr usr) = Some (streak_of usr + 1))
     \<and> (\<forall>d. p_last_completed_date prog = Some d \<and> (today clk - d > 1 \<or> today clk - d < 0)
            \<longrightarrow> u_streak (user_set clk prog usr usr) = Some 1)"
    by (auto simp: streak_logic_def Let_def)
  with run fu show ?thesis by simp
qed

theorem C1_streak_derivation_witness:
  "wf_store \<lparr>user_col = [bob, ada 40 4 4], progress_col = [ada_progress 5 [1, 2, 3, 4] 100],
             oplog = []\<rparr>
   \<and> (\<exists>resp s' usr'.
         complete_day (ada_payload 5) (at_day 101)
           (Some \<lparr>user_col = [bob, ada 40 4 4],
                  progress_col = [ada_progress 5 [1, 2, 3, 4] 100], oplog = []\<rparr>)
           = (Inr resp, Some s')
       \<and> user resp = Some usr' \<and> u_streak usr' = Some 5)"
proof -
  let ?s = "\<lparr>user_col = [bob, ada 40 4 4], progress_col = [ada_progress 5 [1, 2, 3, 4] 100],
             oplog = []\<rparr>"
  have h1: "wf_store ?s" by (simp add: ex_defs)
  have h2: "find_one (user_filter (ada_payload 5)) (user_col ?s) = Some (ada 40 4 4)"
    by (simp add: ex_defs)
  have h3: "find_one (progress_filter (ada_payload 5))
              (progress_col (ensure_progress (ada_payload 5) ?s))
            = Some (ada_progress 5 [1, 2, 3, 4] 100)"
    by (simp add: ex_defs)
  have d: "p_last_completed_date (ada_progress 5 [1, 2, 3, 4] 100) = Some 100
           \<and> today (at_day 101) - 100 = 1"
    by (simp add: ex_defs)
  have s: "streak_of (ada 40 4 4) + 1 = 5" by (simp add: streak_of_def dict_get_def ada_def)
  from C1_streak_derivation [OF h1 h2 h3, of "at_day 101"] d s h1 show ?thesis
    by metis
qed

subsection \<open>C2\<close>

text \<open>
  C2. Points awarded by one request: the points of the user grow by exactly 15 when the
  newly derived streak is a multiple of 5 and by exactly 10 otherwise, whatever the store
  held before and whatever day is completed, a day already among the completed days
  included (the witness completes day 3 again).
\<close>

theorem C2_points_awarded:
  assumes "wf_store s"
    and "find_one (user_filter pl) (user_col s) = Some usr"
    and "find_one (progress_filter pl) (progress_col (ensure_progress pl s)) = Some prog"
  shows "\<exists>resp s' usr'.
           complete_day pl clk (Some s) = (Inr resp, Some s')
         \<and> user resp = Some usr'
         \<and> find_one (user_filter pl) (user_col s') = Some usr'
         \<and> points_of usr' - points_of usr = (if streak_of usr' mod 5 = 0 then 15 else 10)"
proof -
  obtain s' where run: "complete_day pl clk (Some s) =
      (Inr \<lparr>ok = True, user = Some (user_set clk prog usr usr),
            progress = Some (progress_set pl clk prog prog)\<rparr>, Some s')"
    and fu: "find_one (user_filter pl) (user_col s') = Some (user_set clk prog usr usr)"
    using complete_day_success [OF assms] by blast
  have "points_of (user_set clk prog usr usr) - points_of usr =
          (if streak_of (user_set clk prog usr usr) mod 5 = 0 then 15 else 10)"
    by (simp add: user_set_def Let_def points_of_def streak_of_def dict_get_def)
  with run fu show ?thesis by simp
qed

theorem C2_points_awarded_witness:
  "wf_store \<lparr>user_col = [bob, ada 40 4 4], progress_col = [ada_progress 5 [1, 2, 3, 4] 100],
             oplog = []\<rparr>
   \<and> (\<exists>resp s' usr'.
         complete_day (ada_payload 3) (at_day 101)
           (Some \<lparr>user_col = [bob, ada 40 4 4],
                  progress_col = [ada_progress 5 [1, 2, 3, 4] 100], oplog = []\<rparr>)
           = (Inr resp, Some s')
       \<and> user resp = Some usr'
       \<and> points_of usr' - points_of (ada 40 4 4)
           = (if streak_of usr' mod 5 = 0 then 15 else 10))"
proof -
  let ?s = "\<lparr>user_col = [bob, ada 40 4 4], progress_col = [ada_progress 5 [1, 2, 3, 4] 100],
             oplog = []\<rparr>"
  have h1: "wf_store ?s" by (simp add: ex_defs)
  have h2: "find_one (user_filter (ada_payload 3)) (user_col ?s) = Some (ada 40 4 4)"
    by (simp add: ex_defs)
  have h3: "find_one (progress_filter (ada_payload 3))
              (progress_col (ensure_progress (ada_payload 3) ?s))
            = Some (ada_progress 5 [1, 2, 3, 4] 100)"
    by (simp add: ex_defs)
  from C2_points_awarded [OF h1 h2 h3, of "at_day 101"] h1 show ?thesis
    by metis
qed

subsection \<open>C3\<close>

text \<open>
  C3, as amended. Same-day repeat: when the last completion date of the progress record
  is today and the streak of the user is \<open>S \<ge> 1\<close>, the request leaves the streak at \<open>S\<close>;
  the points grow by exactly 10 when \<open>S\<close> is not a multiple of 5 and by exactly 15 when it
  is, since the bonus of line 236 is tested on every request.
\<close>

theorem C3_same_day_repeat:
  assumes "wf_store s"
    and "find_one (user_filter pl) (user_col s) = Some usr"
    and "find_one (progress_filter pl) (progress_col (ensure_progress pl s)) = Some prog"
    and "p_last_completed_date prog = Some (today clk)"
    and "1 \<le> streak_of usr"
  shows "\<exists>resp s' usr'.
           complete_day pl clk (Some s) = (Inr resp, Some s')
         \<and> user resp = Some usr'
         \<and> find_one (user_filter pl) (user_col s') = Some usr'
         \<and> u_streak usr' = Some (streak_of usr)
         \<and> points_of usr' - points_of usr = (if streak_of usr mod 5 = 0 then 15 else 10)"
proof -
  obtain s' where run: "complete_day pl clk (Some s) =
      (Inr \<lparr>ok = True, user = Some (user_set clk prog usr usr),
            progress = Some (progress_set pl clk prog prog)\<rparr>, Some s')"
    and fu: "find_one (user_filter pl) (user_col s') = Some (user_set clk prog usr usr)"
    using complete_day_success [OF assms(1-3)] by blast
  have st: "streak_logic (today clk) (p_last_completed_date prog) (streak_of usr) = streak_of usr"
    using assms(4,5) by (simp add: streak_logic_def)
  have "u_streak (user_set clk prog usr usr) = Some (streak_of usr)"
    and "points_of (user_set clk prog usr usr) - points_of usr =
          (if streak_of usr mod 5 = 0 then 15 else 10)"
    by (simp_all add: user_set_def Let_def st points_of_def dict_get_def)
  with run fu show ?thesis by simp
qed

theorem C3_same_day_repeat_witness:
  "wf_store \<lparr>user_col = [ada 30 3 4], progress_col = [ada_progress 4 [1, 2, 3] 100],
             oplog = []\<rparr>
   \<and> 1 \<le> streak_of (ada 30 3 4)
   \<and> (\<exists>resp s' usr'.
         complete_day (ada_payload 3) (at_day 100)
           (Some \<lparr>user_col = [ada 30 3 4], progress_col = [ada_progress 4 [1, 2, 3] 100],
                  oplog = []\<rparr>)
           = (Inr resp, Some s')
       \<and> user resp = Some usr' \<and> u_streak usr' = Some 3
       \<and> points_of usr' - points_of (ada 30 3 4) = 10)"
proof -
  let ?s = "\<lparr>user_col = [ada 30 3 4], progress_col = [ada_progress 4 [1, 2, 3] 100],
             oplog = []\<rparr>"
  have h1: "wf_store ?s" by (simp add: ex_defs)
  have h2: "find_one (user_filter (ada_payload 3)) (user_col ?s) = Some (ada 30 3 4)"
    by (simp add: ex_defs)
  have h3: "find_one (progress_filter (ada_payload 3))
              (progress_col (ensure_progress (ada_payload 3) ?s))
            = Some (ada_progress 4 [1, 2, 3] 100)"
    by (simp add: ex_defs)
  have h4: "p_last_completed_date (ada_progress 4 [1, 2, 3] 100) = Some (today (at_day 100))"
    by (simp add: ex_defs)
  have h5: "1 \<le> streak_of (ada 30 3 4)" by (simp add: streak_of_def dict_get_def ada_def)
  have v: "streak_of (ada 30 3 4) = 3" by (simp add: streak_of_def dict_get_def ada_def)
  from C3_same_day_repeat [OF h1 h2 h3 h4 h5] h1 h5 show ?thesis
    unfolding v by auto
qed

text \<open>
  The claim C3 as stated (the points grow by exactly 10 for every \<open>S \<ge> 1\<close>) fails at
  \<open>S = 5\<close>: a second completion on the same date leaves the streak at 5 and adds 15 points.
\<close>

theorem C3_same_day_repeat_counterexample:
  "p_last_completed_date (ada_progress 6 [1, 2, 3, 4, 5] 100) = Some (today (at_day 100))
   \<and> streak_of (ada 50 5 5) = 5
   \<and> map_option streak_of (returned_user (complete_day (ada_payload 5) (at_day 100)
        (Some \<lparr>user_col = [ada 50 5 5], progress_col = [ada_progress 6 [1, 2, 3, 4, 5] 100],
               oplog = []\<rparr>))) = Some 5
   \<and> map_option points_of (returned_user (complete_day (ada_payload 5) (at_day 100)
        (Some \<lparr>user_col = [ada 50 5 5], progress_col = [ada_progress 6 [1, 2, 3, 4, 5] 100],
               oplog = []\<rparr>))) = Some (points_of (ada 50 5 5) + 15)
   \<and> map_option points_of (returned_user (complete_day (ada_payload 5) (at_day 100)
        (Some \<lparr>user_col = [ada 50 5 5], progress_col = [ada_progress 6 [1, 2, 3, 4, 5] 100],
               oplog = []\<rparr>))) \<noteq> Some (points_of (ada 50 5 5) + 10)"
  by (simp add: run_defs ex_defs)

subsection \<open>C4\<close>

text \<open>
  C4. After a request the current day of the progress record is the maximum of the
  previous current day and \<open>day + 1\<close>. Consequently the current day of the record of a pair
  never decreases along a sequence of requests, whether they are for the same pair, for
  other pairs or for unknown users.
\<close>

theorem C4_current_day:
  assumes "wf_store s"
  shows "(\<forall>usr prog.
            find_one (user_filter pl) (user_col s) = Some usr
          \<and> find_one (progress_filter pl) (progress_col (ensure_progress pl s)) = Some prog
          \<longrightarrow> (\<exists>resp s' prog'.
                 complete_day pl clk (Some s) = (Inr resp, Some s')
               \<and> progress resp = Some prog'
               \<and> find_one (progress_filter pl) (progress_col s') = Some prog'
               \<and> p_current_day prog' = Some (max (current_day_of prog) (day pl + 1))))
       \<and> (\<forall>p0. find_one (progress_filter q) (progress_col s) = Some p0
          \<longrightarrow> (\<exists>s' p1.
                 run_requests rs (Some s) = Some s'
               \<and> find_one (progress_filter q) (progress_col s') = Some p1
               \<and> current_day_of p0 \<le> current_day_of p1))"
proof (intro conjI allI impI)
  fix usr prog
  assume h: "find_one (user_filter pl) (user_col s) = Some usr
          \<and> find_one (progress_filter pl) (progress_col (ensure_progress pl s)) = Some prog"
  then have u: "find_one (user_filter pl) (user_col s) = Some usr"
    and p: "find_one (progress_filter pl) (progress_col (ensure_progress pl s)) = Some prog"
    by simp_all
  obtain s' where run: "complete_day pl clk (Some s) =
      (Inr \<lparr>ok = True, user = Some (user_set clk prog usr usr),
            progress = Some (progress_set pl clk prog prog)\<rparr>, Some s')"
    and fp: "find_one (progress_filter pl) (progress_col s') = Some (progress_set pl clk prog prog)"
    using complete_day_success [OF assms u p] by blast
  have "p_current_day (progress_set pl clk prog prog)
          = Some (max (current_day_of prog) (day pl + 1))"
    by (simp add: progress_set_def Let_def)
  with run fp show "\<exists>resp s' prog'.
                 complete_day pl clk (Some s) = (Inr resp, Some s')
               \<and> progress resp = Some prog'
               \<and> find_one (progress_filter pl) (progress_col s') = Some prog'
               \<and> p_current_day prog' = Some (max (current_day_of prog) (day pl + 1))"
    by simp
next
  fix p0
  assume q: "find_one (progress_filter q) (progress_col s) = Some p0"
  let ?P = "\<lambda>t. wf_store t \<and> (\<exists>p1. find_one (progress_filter q) (progress_col t) = Some p1
                                \<and> current_day_of p0 \<le> current_day_of p1)"
  have start: "?P s" using assms q by simp
  have step: "\<exists>t'. snd (complete_day pl' clk' (Some t)) = Some t' \<and> ?P t'"
    if "?P t" for t pl' clk'
  proof -
    from that obtain p1 where wf: "wf_store t"
      and f: "find_one (progress_filter q) (progress_col t) = Some p1"
      and le: "current_day_of p0 \<le> current_day_of p1" by blast
    from current_day_step [OF wf f, of pl' clk'] obtain t' p2
      where t': "snd (complete_day pl' clk' (Some t)) = Some t'"
        and f2: "find_one (progress_filter q) (progress_col t') = Some p2"
        and le2: "current_day_of p1 \<le> current_day_of p2" by blast
    from wf_store_complete_day [OF wf, of pl' clk'] t' have "wf_store t'" by simp
    with t' f2 le le2 show ?thesis by auto
  qed
  from run_requests_invariant [of ?P s rs, OF start step]
  show "\<exists>s' p1. run_requests rs (Some s) = Some s'
               \<and> find_one (progress_filter q) (progress_col s') = Some p1
               \<and> current_day_of p0 \<le> current_day_of p1"
    by blast
qed

theorem C4_current_day_witness:
  "wf_store \<lparr>user_col = [bob, ada 40 4 4], progress_col = [ada_progress 5 [1, 2, 3, 4] 100],
             oplog = []\<rparr>
   \<and> (\<exists>resp s' prog'.
         complete_day (ada_payload 9) (at_day 101)
           (Some \<lparr>user_col = [bob, ada 40 4 4],
                  progress_col = [ada_progress 5 [1, 2, 3, 4] 100], oplog = []\<rparr>)
           = (Inr resp, Some s')
       \<and> progress resp = Some prog' \<and> p_current_day prog' = Some 10)
   \<and> (\<exists>s' p1.
         run_requests [(ada_payload 9, at_day 101), (bob_payload 1, at_day 101),
                       (ada_payload 2, at_day 102)]
           (Some \<lparr>user_col = [bob, ada 40 4 4],
                  progress_col = [ada_progress 5 [1, 2, 3, 4] 100], oplog = []\<rparr>) = Some s'
       \<and> find_one (progress_filter (ada_payload 9)) (progress_col s') = Some p1
       \<and> 5 \<le> current_day_of p1)"
proof -
  let ?s = "\<lparr>user_col = [bob, ada 40 4 4], progress_col = [ada_progress 5 [1, 2, 3, 4] 100],
             oplog = []\<rparr>"
  let ?rs = "[(ada_payload 9, at_day 101), (bob_payload 1, at_day 101),
              (ada_payload 2, at_day 102)]"
  have h1: "wf_store ?s" by (simp add: ex_defs)
  have h2: "find_one (user_filter (ada_payload 9)) (user_col ?s) = Some (ada 40 4 4)"
    by (simp add: ex_defs)
  have h3: "find_one (progress_filter (ada_payload 9))
              (progress_col (ensure_progress (ada_payload 9) ?s))
            = Some (ada_progress 5 [1, 2, 3, 4] 100)"
    by (simp add: ex_defs)
  have h4: "find_one (progress_filter (ada_payload 9)) (progress_col ?s)
            = Some (ada_progress 5 [1, 2, 3, 4] 100)"
    by (simp add: ex_defs)
  have v: "current_day_of (ada_progress 5 [1, 2, 3, 4] 100) = 5"
    "max 5 (day (ada_payload 9) + 1) = 10"
    by (simp_all add: current_day_of_def dict_get_def ex_defs)
  note c = C4_current_day [OF h1, of "ada_payload 9" "at_day 101" "ada_payload 9" ?rs]
  have a: "\<exists>resp s' prog'.
         complete_day (ada_payload 9) (at_day 101) (Some ?s) = (Inr resp, Some s')
       \<and> progress resp = Some prog'
       \<and> find_one (progress_filter (ada_payload 9)) (progress_col s') = Some prog'
       \<and> p_current_day prog' = Some 10"
    using conjunct1 [OF c, rule_format, OF conjI [OF h2 h3]] unfolding v .
  have b: "\<exists>s' p1. run_requests ?rs (Some ?s) = Some s'
       \<and> find_one (progress_filter (ada_payload 9)) (progress_col s') = Some p1
       \<and> 5 \<le> current_day_of p1"
    using conjunct2 [OF c, rule_format, OF h4] unfolding v .
  from a b h1 show ?thesis by blast
qed

subsection \<open>C5\<close>

text \<open>
  C5. Start from a store whose progress records are all fresh (no completed day; a store
  without progress records is one) and run any sequence of requests. In the store \<open>s\<close>
  reached, the completed days of every progress record are strictly increasing, hence
  without duplicates; and a further request from \<open>s\<close> stores and returns, as completed
  days, the sorted list of the previous completed days together with \<open>day\<close>.
\<close>

theorem C5_completed_days:
  assumes "wf_store s0"
    and "\<forall>p\<in>set (progress_col s0). completed_days_of p = []"
  shows "\<exists>s. run_requests rs (Some s0) = Some s
           \<and> (\<forall>p\<in>set (progress_col s).
                  sorted_wrt (<) (completed_days_of p) \<and> distinct (completed_days_of p))
           \<and> (\<forall>pl clk usr prog.
                  find_one (user_filter pl) (user_col s) = Some usr
                \<and> find_one (progress_filter pl) (progress_col (ensure_progress pl s)) = Some prog
                \<longrightarrow> (\<exists>resp s' prog'.
                       complete_day pl clk (Some s) = (Inr resp, Some s')
                     \<and> progress resp = Some prog'
                     \<and> find_one (progress_filter pl) (progress_col s') = Some prog'
                     \<and> p_completed_days prog' =
                         Some (sorted_list_of_set (set (completed_days_of prog) \<union> {day pl}))))"
proof -
  let ?P = "\<lambda>t. wf_store t \<and> (\<forall>p\<in>set (progress_col t). sorted_wrt (<) (completed_days_of p))"
  have start: "?P s0" using assms by simp
  have step: "\<exists>t'. snd (complete_day pl clk (Some t)) = Some t' \<and> ?P t'" if "?P t" for t pl clk
    using that wf_store_complete_day [of t pl clk] completed_days_step [of t pl clk] by auto
  from run_requests_invariant [of ?P s0 rs, OF start step] obtain s
    where run: "run_requests rs (Some s0) = Some s" and wf: "wf_store s"
      and inv: "\<forall>p\<in>set (progress_col s). sorted_wrt (<) (completed_days_of p)" by blast
  have call: "\<exists>resp s' prog'.
                complete_day pl clk (Some s) = (Inr resp, Some s')
              \<and> progress resp = Some prog'
              \<and> find_one (progress_filter pl) (progress_col s') = Some prog'
              \<and> p_completed_days prog' =
                  Some (sorted_list_of_set (set (completed_days_of prog) \<union> {day pl}))"
    if u: "find_one (user_filter pl) (user_col s) = Some usr"
      and p: "find_one (progress_filter pl) (progress_col (ensure_progress pl s)) = Some prog"
    for pl clk usr prog
  proof -
    obtain s' where r: "complete_day pl clk (Some s) =
        (Inr \<lparr>ok = True, user = Some (user_set clk prog usr usr),
              progress = Some (progress_set pl clk prog prog)\<rparr>, Some s')"
      and fp: "find_one (progress_filter pl) (progress_col s')
                 = Some (progress_set pl clk prog prog)"
      using complete_day_success [OF wf u p] by blast
    have "completed_days_of (fresh_progress pl s) = []"
      by (simp add: fresh_progress_def completed_days_of_def dict_get_def)
    moreover have "prog \<in> set (progress_col (ensure_progress pl s))"
      using p find_one_SomeD by fastforce
    ultimately have "sorted_wrt (<) (completed_days_of prog)"
      using inv ensure_progress_members [of pl s] by auto
    then have "distinct (completed_days_of prog)" by (simp add: strict_sorted_iff)
    then have "p_completed_days (progress_set pl clk prog prog) =
                 Some (sorted_list_of_set (set (completed_days_of prog) \<union> {day pl}))"
      by (simp add: completed_days_progress_set sort_completed)
    with r fp show ?thesis by simp
  qed
  from run inv call show ?thesis by (simp add: strict_sorted_iff)
qed

theorem C5_completed_days_witness:
  "wf_store \<lparr>user_col = [ada 0 0 0], progress_col = [ada_fresh], oplog = []\<rparr>
   \<and> map completed_days_of
         (progress_col \<lparr>user_col = [ada 0 0 0], progress_col = [ada_fresh], oplog = []\<rparr>) = [[]]
   \<and> (\<exists>s. run_requests [(ada_payload 3, at_day 100), (ada_payload 1, at_day 100),
                          (ada_payload 3, at_day 101)]
              (Some \<lparr>user_col = [ada 0 0 0], progress_col = [ada_fresh], oplog = []\<rparr>) = Some s
          \<and> map completed_days_of (progress_col s) = [[1, 3]]
          \<and> (\<exists>resp s' prog'.
                complete_day (ada_payload 2) (at_day 102) (Some s) = (Inr resp, Some s')
              \<and> progress resp = Some prog'
              \<and> p_completed_days prog' = Some [1, 2, 3]))"
proof -
  let ?init = "\<lparr>user_col = [ada 0 0 0], progress_col = [ada_fresh], oplog = []\<rparr>"
  let ?rs = "[(ada_payload 3, at_day 100), (ada_payload 1, at_day 100),
              (ada_payload 3, at_day 101)]"
  let ?u = "(ada 30 2 2)\<lparr>u_updated_at := Some 2434\<rparr>"
  let ?p = "ada_fresh\<lparr>p_completed_days := Some [1, 3], p_current_day := Some 4,
                       p_last_completed_date := Some 101, p_updated_at := Some 2433\<rparr>"
  let ?s = "\<lparr>user_col = [?u], progress_col = [?p],
             oplog = [UpdateOne ''progress'' 4, UpdateOne ''user'' 7,
                      UpdateOne ''progress'' 4, UpdateOne ''user'' 7,
                      UpdateOne ''progress'' 4, UpdateOne ''user'' 7]\<rparr>"
  have h1: "wf_store ?init" by (simp add: ex_defs)
  have h2: "\<forall>p\<in>set (progress_col ?init). completed_days_of p = []"
    by (simp add: ex_defs completed_days_of_def dict_get_def)
  have r: "run_requests ?rs (Some ?init) = Some ?s"
    by (simp add: run_defs ex_defs)
  have u: "find_one (user_filter (ada_payload 2)) (user_col ?s) = Some ?u"
    by (simp add: ex_defs)
  have p: "find_one (progress_filter (ada_payload 2)) (progress_col (ensure_progress (ada_payload 2) ?s))
             = Some ?p"
    by (simp add: ex_defs)
  have p': "find_one (progress_filter (ada_payload 2)) (progress_col ?s) = Some ?p"
    by (simp add: ex_defs)
  have v: "completed_days_of ?p = [1, 3]"
    by (simp add: completed_days_of_def dict_get_def)
  have w: "sorted_list_of_set (set [1, 3 :: int] \<union> {day (ada_payload 2)}) = [1, 2, 3]"
    by (simp add: ex_defs sorted_list_of_set_sort_remdups)
  from C5_completed_days [OF h1 h2, of ?rs] obtain s
    where rs: "run_requests ?rs (Some ?init) = Some s"
      and inv: "\<forall>p\<in>set (progress_col s).
                  sorted_wrt (<) (completed_days_of p) \<and> distinct (completed_days_of p)"
      and call: "\<forall>pl clk usr prog.
                  find_one (user_filter pl) (user_col s) = Some usr
                \<and> find_one (progress_filter pl) (progress_col (ensure_progress pl s)) = Some prog
                \<longrightarrow> (\<exists>resp s' prog'.
                       complete_day pl clk (Some s) = (Inr resp, Some s')
                     \<and> progress resp = Some prog'
                     \<and> find_one (progress_filter pl) (progress_col s') = Some prog'
                     \<and> p_completed_days prog' =
                         Some (sorted_list_of_set (set (completed_days_of prog) \<union> {day pl})))"
    by blast
  from rs r have s: "s = ?s" by simp
  from call [rule_format, OF conjI, of "ada_payload 2" ?u ?p "at_day 102"] u p
  have c: "\<exists>resp s' prog'.
             complete_day (ada_payload 2) (at_day 102) (Some s) = (Inr resp, Some s')
           \<and> progress resp = Some prog'
           \<and> p_completed_days prog' = Some [1, 2, 3]"
    unfolding s v w by blast
  have m0: "map completed_days_of (progress_col ?init) = [[]]"
    by (simp add: ex_defs completed_days_of_def dict_get_def)
  have m: "map completed_days_of (progress_col ?s) = [[1, 3]]"
    by (simp add: v)
  from h1 m0 rs m c show ?thesis
    unfolding s by (intro conjI exI [of _ ?s]) simp_all
qed

subsection \<open>C6\<close>

text \<open>
  C6. After a request the longest streak of the user is the maximum of the previous
  longest streak and the newly derived streak, so it never decreases. When the streak
  resets to 1 after a gap (the last completion date is neither today nor yesterday) and a
  longest streak of at least 1 is on record, the longest streak keeps its value; the
  witness is the scenario of the spec, a streak of 7 that resets after a gap of 3 days.
  A longest streak of at least 1 is on record whenever a completion date is, in every
  store that the requests themselves have built (lemma \<open>recorded_completion_longest\<close>).
\<close>

theorem C6_longest_streak:
  assumes "wf_store s"
    and "find_one (user_filter pl) (user_col s) = Some usr"
    and "find_one (progress_filter pl) (progress_col (ensure_progress pl s)) = Some prog"
  shows "\<exists>resp s' usr'.
           complete_day pl clk (Some s) = (Inr resp, Some s')
         \<and> user resp = Some usr'
         \<and> find_one (user_filter pl) (user_col s') = Some usr'
         \<and> u_longest_streak usr' = Some (max (longest_of usr) (streak_of usr'))
         \<and> longest_of usr \<le> longest_of usr'
         \<and> (\<forall>d. p_last_completed_date prog = Some d \<and> today clk - d \<noteq> 1 \<and> today clk - d \<noteq> 0
                  \<and> 1 \<le> longest_of usr
                \<longrightarrow> streak_of usr' = 1 \<and> longest_of usr' = longest_of usr)"
proof -
  obtain s' where run: "complete_day pl clk (Some s) =
      (Inr \<lparr>ok = True, user = Some (user_set clk prog usr usr),
            progress = Some (progress_set pl clk prog prog)\<rparr>, Some s')"
    and fu: "find_one (user_filter pl) (user_col s') = Some (user_set clk prog usr usr)"
    using complete_day_success [OF assms] by blast
  let ?u = "user_set clk prog usr usr"
  have st: "streak_of ?u = streak_logic (today clk) (p_last_completed_date prog) (streak_of usr)"
    by (simp add: user_set_def Let_def streak_of_def dict_get_def)
  have lg: "u_longest_streak ?u = Some (max (longest_of usr) (streak_of ?u))"
    unfolding st by (simp add: user_set_def Let_def)
  then have lg': "longest_of ?u = max (longest_of usr) (streak_of ?u)"
    by (simp add: longest_of_def dict_get_def)
  have mono: "longest_of usr \<le> longest_of ?u" unfolding lg' by simp
  have reset: "\<forall>d. p_last_completed_date prog = Some d \<and> today clk - d \<noteq> 1 \<and> today clk - d \<noteq> 0
                  \<and> 1 \<le> longest_of usr
                \<longrightarrow> streak_of ?u = 1 \<and> longest_of ?u = longest_of usr"
    unfolding lg' st by (auto simp: streak_logic_def)
  from run fu lg mono reset show ?thesis by simp
qed

theorem C6_longest_streak_witness:
  "wf_store \<lparr>user_col = [ada 120 7 7], progress_col = [ada_progress 8 [1, 2, 3, 4, 5, 6, 7] 100],
             oplog = []\<rparr>
   \<and> (\<exists>resp s' usr'.
         complete_day (ada_payload 8) (at_day 103)
           (Some \<lparr>user_col = [ada 120 7 7],
                  progress_col = [ada_progress 8 [1, 2, 3, 4, 5, 6, 7] 100], oplog = []\<rparr>)
           = (Inr resp, Some s')
       \<and> user resp = Some usr' \<and> streak_of usr' = 1 \<and> longest_of usr' = 7)"
proof -
  let ?s = "\<lparr>user_col = [ada 120 7 7],
             progress_col = [ada_progress 8 [1, 2, 3, 4, 5, 6, 7] 100], oplog = []\<rparr>"
  have h1: "wf_store ?s" by (simp add: ex_defs)
  have h2: "find_one (user_filter (ada_payload 8)) (user_col ?s) = Some (ada 120 7 7)"
    by (simp add: ex_defs)
  have h3: "find_one (progress_filter (ada_payload 8))
              (progress_col (ensure_progress (ada_payload 8) ?s))
            = Some (ada_progress 8 [1, 2, 3, 4, 5, 6, 7] 100)"
    by (simp add: ex_defs)
  have d: "p_last_completed_date (ada_progress 8 [1, 2, 3, 4, 5, 6, 7] 100) = Some 100
           \<and> today (at_day 103) - 100 \<noteq> 1 \<and> today (at_day 103) - 100 \<noteq> 0
           \<and> 1 \<le> longest_of (ada 120 7 7)"
    by (simp add: ex_defs longest_of_def dict_get_def)
  have v: "longest_of (ada 120 7 7) = 7" by (simp add: longest_of_def dict_get_def ada_def)
  from C6_longest_streak [OF h1 h2 h3, of "at_day 103"] d h1 show ?thesis
    unfolding v by metis
qed

subsection \<open>C7\<close>

text \<open>
  C7. When no user document has the e-mail address of the payload, the request fails
  with the HTTP error 404 (not found) and the store is the one before the request: no
  user document is changed, no progress document is created or updated, and nothing is
  written.
\<close>

theorem C7_unknown_user:
  assumes "find_one (user_filter pl) (user_col s) = None"
  shows "complete_day pl clk (Some s) = (Inl (HTTPException 404 ''User not found''), Some s)"
  using assms by (simp add: complete_day_def complete_day_db_def)

theorem C7_unknown_user_witness:
  "find_one (user_filter (bob_payload 1))
     (user_col \<lparr>user_col = [ada 40 4 4], progress_col = [ada_progress 5 [1, 2, 3, 4] 100],
                oplog = []\<rparr>) = None
   \<and> complete_day (bob_payload 1) (at_day 101)
       (Some \<lparr>user_col = [ada 40 4 4], progress_col = [ada_progress 5 [1, 2, 3, 4] 100],
              oplog = []\<rparr>)
     = (Inl (HTTPException 404 ''User not found''),
        Some \<lparr>user_col = [ada 40 4 4], progress_col = [ada_progress 5 [1, 2, 3, 4] 100],
              oplog = []\<rparr>)"
proof -
  have h: "find_one (user_filter (bob_payload 1))
     (user_col \<lparr>user_col = [ada 40 4 4], progress_col = [ada_progress 5 [1, 2, 3, 4] 100],
                oplog = []\<rparr>) = None"
    by (simp add: ex_defs)
  from C7_unknown_user [OF h, of "at_day 101"] h show ?thesis by simp
qed

subsection \<open>C8\<close>

text \<open>
  C8. The request is a function of the previous stats of the user, the previous progress
  record, today's date and the day of the payload. Two runs, on any two stores and with any
  two payloads and clocks, in which the users found have the same stats (points, streak,
  longest streak), the progress records found are the same (current day, completed days,
  last completion date) or both absent, and \<open>today\<close> and \<open>day\<close> agree, return and store the same
  stats and the same progress record. The e-mail address, the challenge slug, the object
  ids, the other documents of the store and the instants \<^verbatim>\<open>_now()\<close> written to
  \<^verbatim>\<open>updated_at\<close> have no influence on them; stats and record are the fields that the data
  model of the spec (section 3) lists, to which \<^verbatim>\<open>updated_at\<close> does not belong.
\<close>

theorem C8_deterministic:
  assumes "wf_store s1" and "wf_store s2"
    and u1: "find_one (user_filter pl1) (user_col s1) = Some usr1"
    and u2: "find_one (user_filter pl2) (user_col s2) = Some usr2"
    and stats: "user_stats usr1 = user_stats usr2"
    and recs: "map_option progress_record (find_one (progress_filter pl1) (progress_col s1))
               = map_option progress_record (find_one (progress_filter pl2) (progress_col s2))"
    and tday: "today clk1 = today clk2"
    and dday: "day pl1 = day pl2"
  shows "\<exists>resp1 resp2 t1 t2 usr1' usr2' prog1' prog2'.
           complete_day pl1 clk1 (Some s1) = (Inr resp1, Some t1)
         \<and> complete_day pl2 clk2 (Some s2) = (Inr resp2, Some t2)
         \<and> user resp1 = Some usr1' \<and> find_one (user_filter pl1) (user_col t1) = Some usr1'
         \<and> user resp2 = Some usr2' \<and> find_one (user_filter pl2) (user_col t2) = Some usr2'
         \<and> progress resp1 = Some prog1'
         \<and> find_one (progress_filter pl1) (progress_col t1) = Some prog1'
         \<and> progress resp2 = Some prog2'
         \<and> find_one (progress_filter pl2) (progress_col t2) = Some prog2'
         \<and> user_stats usr1' = user_stats usr2'
         \<and> progress_record prog1' = progress_record prog2'"
proof -
  obtain prog1 where p1:
    "find_one (progress_filter pl1) (progress_col (ensure_progress pl1 s1)) = Some prog1"
    using ensure_progress_found by blast
  obtain prog2 where p2:
    "find_one (progress_filter pl2) (progress_col (ensure_progress pl2 s2)) = Some prog2"
    using ensure_progress_found by blast
  have rec: "progress_record prog1 = progress_record prog2"
  proof (cases "find_one (progress_filter pl1) (progress_col s1)")
    case None
    with recs have n2: "find_one (progress_filter pl2) (progress_col s2) = None" by simp
    from ensure_progress_absent(2) [OF None] p1 have "prog1 = fresh_progress pl1 s1" by simp
    moreover from ensure_progress_absent(2) [OF n2] p2 have "prog2 = fresh_progress pl2 s2"
      by simp
    ultimately show ?thesis by (simp add: progress_record_def fresh_progress_def)
  next
    case (Some q1)
    with recs have "map_option progress_record (find_one (progress_filter pl2) (progress_col s2))
                     = Some (progress_record q1)" by simp
    then obtain q2 where s2: "find_one (progress_filter pl2) (progress_col s2) = Some q2"
      and eq: "progress_record q1 = progress_record q2" by auto
    from Some p1 have "prog1 = q1" by (simp add: ensure_progress_present)
    moreover from s2 p2 have "prog2 = q2" by (simp add: ensure_progress_present)
    ultimately show ?thesis using eq by simp
  qed
  obtain t1 where r1: "complete_day pl1 clk1 (Some s1) =
      (Inr \<lparr>ok = True, user = Some (user_set clk1 prog1 usr1 usr1),
            progress = Some (progress_set pl1 clk1 prog1 prog1)\<rparr>, Some t1)"
    and fu1: "find_one (user_filter pl1) (user_col t1) = Some (user_set clk1 prog1 usr1 usr1)"
    and fp1: "find_one (progress_filter pl1) (progress_col t1)
                = Some (progress_set pl1 clk1 prog1 prog1)"
    using complete_day_success [OF assms(1) u1 p1] by blast
  obtain t2 where r2: "complete_day pl2 clk2 (Some s2) =
      (Inr \<lparr>ok = True, user = Some (user_set clk2 prog2 usr2 usr2),
            progress = Some (progress_set pl2 clk2 prog2 prog2)\<rparr>, Some t2)"
    and fu2: "find_one (user_filter pl2) (user_col t2) = Some (user_set clk2 prog2 usr2 usr2)"
    and fp2: "find_one (progress_filter pl2) (progress_col t2)
                = Some (progress_set pl2 clk2 prog2 prog2)"
    using complete_day_success [OF assms(2) u2 p2] by blast
  have su: "user_stats (user_set clk1 prog1 usr1 usr1) = user_stats (user_set clk2 prog2 usr2 usr2)"
    using stats rec tday
    by (simp add: user_stats_def progress_record_def user_set_def Let_def streak_of_def
          longest_of_def points_of_def)
  have sp: "progress_record (progress_set pl1 clk1 prog1 prog1)
          = progress_record (progress_set pl2 clk2 prog2 prog2)"
    using rec tday dday
    by (simp add: progress_record_def progress_set_def Let_def completed_days_of_def
          current_day_of_def)
  from r1 r2 fu1 fu2 fp1 fp2 su sp show ?thesis by simp
qed

theorem C8_deterministic_witness:
  "wf_store \<lparr>user_col = [bob, ada 40 4 4], progress_col = [ada_progress 5 [1, 2, 3, 4] 100],
             oplog = []\<rparr>
   \<and> wf_store \<lparr>user_col = [carol 40 4 4],
                progress_col = [ada_progress 9 [8] 50, carol_progress 5 [1, 2, 3, 4] 100],
                oplog = [UpdateOne ''user'' 9]\<rparr>
   \<and> user_stats (ada 40 4 4) = user_stats (carol 40 4 4)
   \<and> (\<exists>resp1 resp2 t1 t2 usr1' usr2' prog1' prog2'.
         complete_day (ada_payload 5) (at_day 101)
           (Some \<lparr>user_col = [bob, ada 40 4 4],
                  progress_col = [ada_progress 5 [1, 2, 3, 4] 100], oplog = []\<rparr>)
           = (Inr resp1, Some t1)
       \<and> complete_day (carol_payload 5) \<lparr>today = 101, now_progress = 5000, now_user = 5001\<rparr>
           (Some \<lparr>user_col = [carol 40 4 4],
                  progress_col = [ada_progress 9 [8] 50, carol_progress 5 [1, 2, 3, 4] 100],
                  oplog = [UpdateOne ''user'' 9]\<rparr>)
           = (Inr resp2, Some t2)
       \<and> user resp1 = Some usr1' \<and> user resp2 = Some usr2'
       \<and> progress resp1 = Some prog1' \<and> progress resp2 = Some prog2'
       \<and> user_stats usr1' = user_stats usr2'
       \<and> progress_record prog1' = progress_record prog2')"
proof -
  let ?s1 = "\<lparr>user_col = [bob, ada 40 4 4], progress_col = [ada_progress 5 [1, 2, 3, 4] 100],
              oplog = []\<rparr>"
  let ?s2 = "\<lparr>user_col = [carol 40 4 4],
              progress_col = [ada_progress 9 [8] 50, carol_progress 5 [1, 2, 3, 4] 100],
              oplog = [UpdateOne ''user'' 9]\<rparr>"
  let ?c2 = "\<lparr>today = 101, now_progress = 5000, now_user = 5001\<rparr>"
  have w1: "wf_store ?s1" and w2: "wf_store ?s2" by (simp_all add: ex_defs)
  have u1: "find_one (user_filter (ada_payload 5)) (user_col ?s1) = Some (ada 40 4 4)"
    by (simp add: ex_defs)
  have u2: "find_one (user_filter (carol_payload 5)) (user_col ?s2) = Some (carol 40 4 4)"
    by (simp add: ex_defs)
  have st: "user_stats (ada 40 4 4) = user_stats (carol 40 4 4)"
    by (simp add: user_stats_def ex_defs)
  have rc: "map_option progress_record (find_one (progress_filter (ada_payload 5)) (progress_col ?s1))
          = map_option progress_record
              (find_one (progress_filter (carol_payload 5)) (progress_col ?s2))"
    by (simp add: progress_record_def ex_defs)
  have td: "today (at_day 101) = today ?c2" by (simp add: at_day_def)
  have dd: "day (ada_payload 5) = day (carol_payload 5)" by (simp add: ex_defs)
  from C8_deterministic [OF w1 w2 u1 u2 st rc td dd] w1 w2 st show ?thesis
    by metis
qed

subsection \<open>C9\<close>

text \<open>
  C9, as amended. A successful request updates the user document and the progress
  document, once each, and changes no other document. When the pair already has a
  progress document these two updates are all it writes. When the pair has none, the
  request first inserts the new progress document (line 207), so that it writes three
  times: the insert and the two updates.
\<close>

theorem C9_store_writes:
  assumes "wf_store s"
    and "find_one (user_filter pl) (user_col s) = Some usr"
  shows "\<exists>resp s' usr' prog'.
           complete_day pl clk (Some s) = (Inr resp, Some s')
         \<and> user resp = Some usr' \<and> progress resp = Some prog'
         \<and> user_col s' = map (\<lambda>u. if u_id u = u_id usr then usr' else u) (user_col s)
         \<and> (case find_one (progress_filter pl) (progress_col s) of
              Some prog \<Rightarrow>
                progress_col s' = map (\<lambda>p. if p_id p = p_id prog then prog' else p) (progress_col s)
                \<and> oplog s' = oplog s @
                     [UpdateOne ''progress'' (p_id prog), UpdateOne ''user'' (u_id usr)]
            | None \<Rightarrow>
                progress_col s' = progress_col s @ [prog']
                \<and> p_id prog' \<notin> set (map p_id (progress_col s))
                \<and> oplog s' = oplog s @
                     [InsertOne ''progress'' (p_id prog'), UpdateOne ''progress'' (p_id prog'),
                      UpdateOne ''user'' (u_id usr)])"
proof (cases "find_one (progress_filter pl) (progress_col s)")
  case (Some prog)
  then have e: "ensure_progress pl s = s" by (rule ensure_progress_present)
  have p: "find_one (progress_filter pl) (progress_col (ensure_progress pl s)) = Some prog"
    using Some e by simp
  show ?thesis
    using complete_day_store [OF assms p, of clk] Some by (simp add: e)
next
  case None
  let ?f = "fresh_progress pl s"
  note e = ensure_progress_absent [OF None]
  have fid: "p_id ?f = fresh_oid (map p_id (progress_col s))" by (simp add: fresh_progress_def)
  have nin: "p_id ?f \<notin> set (map p_id (progress_col s))"
    unfolding fid by (rule fresh_oid_notin)
  then have "\<forall>x\<in>set (progress_col s). p_id x \<noteq> p_id ?f" by (rule notin_map_key)
  then have keep: "map (\<lambda>p. if p_id p = p_id ?f then progress_set pl clk ?f ?f else p)
                     (progress_col s) = progress_col s"
    by (simp add: map_idI)
  have pc: "progress_col (ensure_progress pl s) = progress_col s @ [?f]"
    and ol: "oplog (ensure_progress pl s) = oplog s @ [InsertOne ''progress'' (p_id ?f)]"
    by (simp_all add: e(1) fid)
  have run: "complete_day pl clk (Some s) =
    (Inr \<lparr>ok = True, user = Some (user_set clk ?f usr usr),
          progress = Some (progress_set pl clk ?f ?f)\<rparr>,
     Some \<lparr>user_col = map (\<lambda>u. if u_id u = u_id usr then user_set clk ?f usr usr else u)
                         (user_col s),
           progress_col = progress_col s @ [progress_set pl clk ?f ?f],
           oplog = oplog s @ [InsertOne ''progress'' (p_id ?f),
                     UpdateOne ''progress'' (p_id ?f), UpdateOne ''user'' (u_id usr)]\<rparr>)"
    unfolding complete_day_store [OF assms e(2), of clk] pc ol by (simp add: keep)
  have "p_id (progress_set pl clk ?f ?f) \<notin> set (map p_id (progress_col s))"
    using nin by simp
  then show ?thesis
    unfolding run None by simp
qed

theorem C9_store_writes_witness:
  "wf_store \<lparr>user_col = [bob, ada 40 4 4], progress_col = [ada_progress 5 [1, 2, 3, 4] 100],
             oplog = []\<rparr>
   \<and> (\<exists>resp s'.
         complete_day (ada_payload 5) (at_day 101)
           (Some \<lparr>user_col = [bob, ada 40 4 4],
                  progress_col = [ada_progress 5 [1, 2, 3, 4] 100], oplog = []\<rparr>)
           = (Inr resp, Some s')
       \<and> oplog s' = [UpdateOne ''progress'' 4, UpdateOne ''user'' 7])"
proof -
  let ?s = "\<lparr>user_col = [bob, ada 40 4 4], progress_col = [ada_progress 5 [1, 2, 3, 4] 100],
             oplog = []\<rparr>"
  have h1: "wf_store ?s" by (simp add: ex_defs)
  have h2: "find_one (user_filter (ada_payload 5)) (user_col ?s) = Some (ada 40 4 4)"
    by (simp add: ex_defs)
  have h3: "find_one (progress_filter (ada_payload 5)) (progress_col ?s)
            = Some (ada_progress 5 [1, 2, 3, 4] 100)"
    by (simp add: ex_defs)
  have i: "p_id (ada_progress 5 [1, 2, 3, 4] 100) = 4" "u_id (ada 40 4 4) = 7"
    by (simp_all add: ex_defs)
  from C9_store_writes [OF h1 h2, of "at_day 101"] h1 show ?thesis
    unfolding h3 by (auto simp: i)
qed

text \<open>
  The claim C9 as stated (exactly two writes also when the pair has no progress record)
  fails on a store without progress documents: the log of the request holds the insert
  before the two updates.
\<close>

theorem C9_store_writes_counterexample:
  "returned_user (complete_day (bob_payload 1) (at_day 100)
        (Some \<lparr>user_col = [bob], progress_col = [], oplog = []\<rparr>)) \<noteq> None
   \<and> written (complete_day (bob_payload 1) (at_day 100)
        (Some \<lparr>user_col = [bob], progress_col = [], oplog = []\<rparr>))
       = [InsertOne ''progress'' 1, UpdateOne ''progress'' 1, UpdateOne ''user'' 3]
   \<and> length (written (complete_day (bob_payload 1) (at_day 100)
        (Some \<lparr>user_col = [bob], progress_col = [], oplog = []\<rparr>))) = 3"
  by (simp add: run_defs ex_defs)

subsection \<open>C10\<close>

text \<open>
  C10. After every successful request the streak of the user is at least 1, and hence so
  is the longest streak, whatever streak was stored before. The stored streaks are the
  ones the program can hold: the \<^verbatim>\<open>User\<close> model admits no negative streak (\<^verbatim>\<open>ge=0\<close>,
  src/schemas.py line 18), a document without the key counts as streak 0 (line 218), and
  the requests keep every stored streak non-negative. The theorem proves both: start from
  any store whose streaks are non-negative and run any sequence of requests; in the store
  \<open>s\<close> reached all streaks are still non-negative, and every further request that finds its
  user returns and stores a streak of at least 1 and a longest streak of at least 1, in
  each branch of the derivation (lemma \<open>streak_logic_at_least_one\<close>). The witness takes
  the branch \<^verbatim>\<open>streak += 1\<close> twice, first from a stored streak of 0.
\<close>

theorem C10_streak_at_least_one:
  assumes "wf_store s0"
    and "\<forall>u\<in>set (user_col s0). 0 \<le> streak_of u"
  shows "\<exists>s. run_requests rs (Some s0) = Some s
           \<and> (\<forall>u\<in>set (user_col s). 0 \<le> streak_of u)
           \<and> (\<forall>pl clk usr prog.
                  find_one (user_filter pl) (user_col s) = Some usr
                \<and> find_one (progress_filter pl) (progress_col (ensure_progress pl s)) = Some prog
                \<longrightarrow> (\<exists>resp s' usr'.
                       complete_day pl clk (Some s) = (Inr resp, Some s')
                     \<and> user resp = Some usr'
                     \<and> find_one (user_filter pl) (user_col s') = Some usr'
                     \<and> 1 \<le> streak_of usr' \<and> 1 \<le> longest_of usr'))"
proof -
  let ?P = "\<lambda>t. wf_store t \<and> (\<forall>u\<in>set (user_col t). 0 \<le> streak_of u)"
  have start: "?P s0" using assms by simp
  have step: "\<exists>t'. snd (complete_day pl clk (Some t)) = Some t' \<and> ?P t'" if "?P t" for t pl clk
    using that wf_store_complete_day [of t pl clk] streak_nonneg_step [of t pl clk] by auto
  from run_requests_invariant [of ?P s0 rs, OF start step] obtain s
    where run: "run_requests rs (Some s0) = Some s" and wf: "wf_store s"
      and inv: "\<forall>u\<in>set (user_col s). 0 \<le> streak_of u" by blast
  have call: "\<exists>resp s' usr'.
                complete_day pl clk (Some s) = (Inr resp, Some s')
              \<and> user resp = Some usr'
              \<and> find_one (user_filter pl) (user_col s') = Some usr'
              \<and> 1 \<le> streak_of usr' \<and> 1 \<le> longest_of usr'"
    if u: "find_one (user_filter pl) (user_col s) = Some usr"
      and p: "find_one (progress_filter pl) (progress_col (ensure_progress pl s)) = Some prog"
    for pl clk usr prog
  proof -
    obtain s' where r: "complete_day pl clk (Some s) =
        (Inr \<lparr>ok = True, user = Some (user_set clk prog usr usr),
              progress = Some (progress_set pl clk prog prog)\<rparr>, Some s')"
      and fu: "find_one (user_filter pl) (user_col s') = Some (user_set clk prog usr usr)"
      using complete_day_success [OF wf u p] by blast
    from u have "usr \<in> set (user_col s)" using find_one_SomeD by fastforce
    with inv have "0 \<le> streak_of usr" by simp
    then have sl: "1 \<le> streak_logic (today clk) (p_last_completed_date prog) (streak_of usr)"
      by (simp add: streak_logic_at_least_one)
    then have "1 \<le> streak_of (user_set clk prog usr usr)"
      and "1 \<le> longest_of (user_set clk prog usr usr)"
      by (simp_all add: streak_of_user_set longest_of_user_set)
    with r fu show ?thesis by simp
  qed
  from run inv call show ?thesis by blast
qed

theorem C10_streak_at_least_one_witness:
  "wf_store \<lparr>user_col = [bob, ada 0 0 0], progress_col = [ada_progress 2 [1] 100], oplog = []\<rparr>
   \<and> map streak_of
         (user_col \<lparr>user_col = [bob, ada 0 0 0], progress_col = [ada_progress 2 [1] 100],
                    oplog = []\<rparr>) = [0, 0]
   \<and> (\<exists>s. run_requests [(carol_payload 1, at_day 100), (ada_payload 2, at_day 101)]
              (Some \<lparr>user_col = [bob, ada 0 0 0], progress_col = [ada_progress 2 [1] 100],
                     oplog = []\<rparr>) = Some s
          \<and> map streak_of (user_col s) = [0, 1]
          \<and> (\<exists>resp s' usr'.
                complete_day (ada_payload 3) (at_day 102) (Some s) = (Inr resp, Some s')
              \<and> user resp = Some usr'
              \<and> 1 \<le> streak_of usr' \<and> 1 \<le> longest_of usr'))"
proof -
  let ?init = "\<lparr>user_col = [bob, ada 0 0 0], progress_col = [ada_progress 2 [1] 100],
                oplog = []\<rparr>"
  let ?rs = "[(carol_payload 1, at_day 100), (ada_payload 2, at_day 101)]"
  let ?u = "(ada 10 1 1)\<lparr>u_updated_at := Some 2434\<rparr>"
  let ?p = "(ada_progress 3 [1, 2] 101)\<lparr>p_updated_at := Some 2433\<rparr>"
  let ?t = "\<lparr>user_col = [bob, ?u], progress_col = [?p],
             oplog = [UpdateOne ''progress'' 4, UpdateOne ''user'' 7]\<rparr>"
  have h1: "wf_store ?init" by (simp add: ex_defs)
  have h2: "\<forall>u\<in>set (user_col ?init). 0 \<le> streak_of u"
    by (simp add: ex_defs streak_of_def dict_get_def)
  have m0: "map streak_of (user_col ?init) = [0, 0]"
    by (simp add: ex_defs streak_of_def dict_get_def)
  have r: "run_requests ?rs (Some ?init) = Some ?t"
    by (simp add: run_defs ex_defs)
  have m: "map streak_of (user_col ?t) = [0, 1]"
    by (simp add: ex_defs streak_of_def dict_get_def)
  have u: "find_one (user_filter (ada_payload 3)) (user_col ?t) = Some ?u"
    by (simp add: ex_defs)
  have p: "find_one (progress_filter (ada_payload 3))
             (progress_col (ensure_progress (ada_payload 3) ?t)) = Some ?p"
    by (simp add: ex_defs)
  from C10_streak_at_least_one [OF h1 h2, of ?rs] obtain s
    where rs: "run_requests ?rs (Some ?init) = Some s"
      and call: "\<forall>pl clk usr prog.
                  find_one (user_filter pl) (user_col s) = Some usr
                \<and> find_one (progress_filter pl) (progress_col (ensure_progress pl s)) = Some prog
                \<longrightarrow> (\<exists>resp s' usr'.
                       complete_day pl clk (Some s) = (Inr resp, Some s')
                     \<and> user resp = Some usr'
                     \<and> find_one (user_filter pl) (user_col s') = Some usr'
                     \<and> 1 \<le> streak_of usr' \<and> 1 \<le> longest_of usr')"
    by blast
  from rs r have s: "s = ?t" by simp
  from call [rule_format, OF conjI, of "ada_payload 3" ?u ?p "at_day 102"] u p
  have c: "\<exists>resp s' usr'.
             complete_day (ada_payload 3) (at_day 102) (Some s) = (Inr resp, Some s')
           \<and> user resp = Some usr'
           \<and> 1 \<le> streak_of usr' \<and> 1 \<le> longest_of usr'"
    unfolding s by blast
  from h1 m0 rs m c show ?thesis
    unfolding s by (intro conjI exI [of _ ?t]) simp_all
qed

end
